theory Spec2Isabelle
  imports Main "HOL-Library.AList" "HOL-Library.Signed_Division"
begin

section \<open>JavaScript values, strings and Map\<close>

text \<open>
  The drawing records handled by the game are of TypeScript type \<open>any\<close>; they are
  modelled as JSON-like values. The core never looks inside a drawing record.
\<close>

datatype jsval =
    JUndefined
  | JNull
  | JBool bool
  | JNum int
  | JStr string
  | JArr "jsval list"
  | JObj "(string \<times> jsval) list"

text \<open>
  A JavaScript \<open>Map\<close> iterates in insertion order and \<open>set\<close> on a present key replaces
  the value in place. It is modelled as an association list: \<open>get\<close> is \<^const>\<open>map_of\<close>,
  \<open>set\<close> is \<^const>\<open>AList.update\<close> (replace in place, else append), \<open>delete\<close> is
  \<^const>\<open>AList.delete\<close>, \<open>values()\<close> is \<open>map snd\<close> and \<open>size\<close> is \<^const>\<open>length\<close>.
\<close>

definition mapHas :: "('k \<times> 'v) list \<Rightarrow> 'k \<Rightarrow> bool" where
  "mapHas m k = (map_of m k \<noteq> None)"

text \<open>
  Truthiness of an optional string, as tested by \<open>!x\<close> and \<open>x ? a : b\<close>: both
  \<open>undefined\<close> and the empty string are falsy.
\<close>

definition truthy :: "string option \<Rightarrow> bool" where
  "truthy x = (case x of None \<Rightarrow> False | Some s \<Rightarrow> s \<noteq> [])"

text \<open>
  A JavaScript string is modelled by its UTF-8 encoding, a list of bytes (a lone
  surrogate by the three bytes of its code unit).

  \<open>String.prototype.trim\<close> removes white space and line terminators from both ends.
  These are the code points U+0009 to U+000D, U+0020, U+00A0, U+1680, U+2000 to U+200A,
  U+2028, U+2029, U+202F, U+205F, U+3000 and U+FEFF; \<open>whiteSpace\<close> lists their
  encodings. No encoding in the list is the start of another one.
\<close>

definition whiteSpace :: "string list" where
  "whiteSpace =
    [[CHR 0x09], [CHR 0x0A], [CHR 0x0B], [CHR 0x0C], [CHR 0x0D], [CHR 0x20],
     [CHR 0xC2, CHR 0xA0], [CHR 0xE1, CHR 0x9A, CHR 0x80], [CHR 0xE2, CHR 0x80, CHR 0x80],
     [CHR 0xE2, CHR 0x80, CHR 0x81], [CHR 0xE2, CHR 0x80, CHR 0x82],
     [CHR 0xE2, CHR 0x80, CHR 0x83], [CHR 0xE2, CHR 0x80, CHR 0x84],
     [CHR 0xE2, CHR 0x80, CHR 0x85], [CHR 0xE2, CHR 0x80, CHR 0x86],
     [CHR 0xE2, CHR 0x80, CHR 0x87], [CHR 0xE2, CHR 0x80, CHR 0x88],
     [CHR 0xE2, CHR 0x80, CHR 0x89], [CHR 0xE2, CHR 0x80, CHR 0x8A],
     [CHR 0xE2, CHR 0x80, CHR 0xA8], [CHR 0xE2, CHR 0x80, CHR 0xA9],
     [CHR 0xE2, CHR 0x80, CHR 0xAF], [CHR 0xE2, CHR 0x81, CHR 0x9F],
     [CHR 0xE3, CHR 0x80, CHR 0x80], [CHR 0xEF, CHR 0xBB, CHR 0xBF]]"

text \<open>The first of the patterns that the string starts with, if there is one.\<close>

definition startMatch :: "string list \<Rightarrow> string \<Rightarrow> string option" where
  "startMatch pats s = find (\<lambda>p. p \<noteq> [] \<and> take (length p) s = p) pats"

function stripStart :: "string list \<Rightarrow> string \<Rightarrow> string" where
  "stripStart pats s =
     (case startMatch pats s of
        None \<Rightarrow> s
      | Some p \<Rightarrow> stripStart pats (drop (length p) s))"
  by pat_completeness auto
termination
proof (relation "measure (\<lambda>(pats, s). length s)")
  show "wf (measure (\<lambda>(pats, s). length s))" by simp
next
  fix pats :: "string list" and s p :: string
  assume "startMatch pats s = Some p"
  then have "p \<noteq> []" and t: "take (length p) s = p"
    by (auto simp: startMatch_def find_Some_iff)
  from t have "length (take (length p) s) = length p" by simp
  then have "length p \<le> length s" by simp
  with \<open>p \<noteq> []\<close> have "length (drop (length p) s) < length s" by (cases s) auto
  then show "((pats, drop (length p) s), (pats, s)) \<in> measure (\<lambda>(pats, s). length s)"
    by simp
qed

declare stripStart.simps [simp del]

definition trim :: "string \<Rightarrow> string" where
  "trim s = rev (stripStart (map rev whiteSpace) (rev (stripStart whiteSpace s)))"

text \<open>A string that is made of patterns, one after the other.\<close>

inductive runOf :: "string list \<Rightarrow> string \<Rightarrow> bool" for pats :: "string list" where
  empty: "runOf pats []"
| more: "p \<in> set pats \<Longrightarrow> runOf pats r \<Longrightarrow> runOf pats (p @ r)"

text \<open>
  \<open>String.prototype.toLowerCase\<close> maps a string by the case-mapping tables of the
  Unicode standard, which belong to the JavaScript runtime and not to the program.
  The function is a parameter of the model, called \<open>toLowerCase\<close>, wherever the code
  calls it. \<open>toLowerCaseAscii\<close> is its restriction to the letters A to Z: it agrees
  with \<open>String.prototype.toLowerCase\<close> on every string that has no cased letter
  outside ASCII, such as the strings of the examples and the Korean words of the word
  list.
\<close>

definition toLowerCharAscii :: "char \<Rightarrow> char" where
  "toLowerCharAscii c =
     (if 65 \<le> (of_char c :: nat) \<and> (of_char c :: nat) \<le> 90
      then char_of ((of_char c :: nat) + 32) else c)"

definition toLowerCaseAscii :: "string \<Rightarrow> string" where
  "toLowerCaseAscii s = map toLowerCharAscii s"

text \<open>\<open>Array.prototype.findIndex\<close>: the index of the first match, or \<open>-1\<close>.\<close>

fun findIndex :: "('a \<Rightarrow> bool) \<Rightarrow> 'a list \<Rightarrow> int" where
  "findIndex P [] = - 1"
| "findIndex P (x # xs) =
     (if P x then 0
      else (let i = findIndex P xs in if i < 0 then - 1 else i + 1))"

section \<open>The game service\<close>

text \<open>The word list \<open>mockWords\<close> (ten Korean words, as UTF-8 bytes).\<close>

definition mockWords :: "string list" where
  "mockWords =
    [[CHR 0xEC, CHR 0x82, CHR 0xAC, CHR 0xEA, CHR 0xB3, CHR 0xBC],
     [CHR 0xEB, CHR 0xB0, CHR 0x94, CHR 0xEB, CHR 0x82, CHR 0x98, CHR 0xEB, CHR 0x82, CHR 0x98],
     [CHR 0xEC, CHR 0xBB, CHR 0xB4, CHR 0xED, CHR 0x93, CHR 0xA8, CHR 0xED, CHR 0x84, CHR 0xB0],
     [CHR 0xEC, CHR 0x9E, CHR 0x90, CHR 0xEB, CHR 0x8F, CHR 0x99, CHR 0xEC, CHR 0xB0, CHR 0xA8],
     [CHR 0xEC, CHR 0xBB, CHR 0xA4, CHR 0xED, CHR 0x94, CHR 0xBC],
     [CHR 0xEC, CHR 0x9D, CHR 0x98, CHR 0xEC, CHR 0x9E, CHR 0x90],
     [CHR 0xEC, CHR 0xB1, CHR 0x85, CHR 0xEC, CHR 0x83, CHR 0x81],
     [CHR 0xED, CHR 0x9C, CHR 0xB4, CHR 0xEB, CHR 0x8C, CHR 0x80, CHR 0xED, CHR 0x8F, CHR 0xB0],
     [CHR 0xEC, CHR 0x9E, CHR 0x90, CHR 0xEC, CHR 0xA0, CHR 0x84, CHR 0xEA, CHR 0xB1, CHR 0xB0],
     [CHR 0xEC, CHR 0xB9, CHR 0xB4, CHR 0xEB, CHR 0xA9, CHR 0x94, CHR 0xEB, CHR 0x9D, CHR 0xBC]]"

text \<open>
  \<open>mockWords[Math.floor(Math.random() * mockWords.length)]\<close>. The random draw is an
  input of the model: \<open>rnd\<close> is the value of \<open>Math.floor(Math.random() * mockWords.length)\<close>,
  which the contract of \<open>Math.random\<close> (a number in \<open>[0, 1)\<close>) keeps below the length of
  the list. An index outside the array reads \<open>undefined\<close>.
\<close>

definition randomWord :: "nat \<Rightarrow> string option" where
  "randomWord rnd = (if rnd < length mockWords then Some (mockWords ! rnd) else None)"

text \<open>
  A player. The score is a JavaScript number that starts at 0 and only ever grows in
  steps of 10; it is modelled as an integer.
\<close>

record Player =
  socketId :: string
  name :: string
  score :: int

record Room =
  id_room :: string
  players :: "(string \<times> Player) list"
  shapes :: "jsval list"
  currentWord :: "string option"
  roundOwner :: "string option"

text \<open>The state of the service: \<open>rooms\<close>, a Map from room id to room.\<close>

type_synonym Rooms = "(string \<times> Room) list"

definition newRoom :: "string \<Rightarrow> Room" where
  "newRoom roomId =
     \<lparr>id_room = roomId, players = [], shapes = [], currentWord = None, roundOwner = None\<rparr>"

text \<open>
  Every method but \<open>removePlayerFromAll\<close> and \<open>getCurrentWord\<close> first fetches the room
  with \<open>ensureRoom\<close> and then reads or mutates that room object. The model passes the
  state: \<open>ensureRoom\<close> returns the registry and the room; the body of a method is a
  function on the room (named after the method, with the suffix \<open>In\<close>), and the method
  writes the room back under its key, which is present by then, so the order of the
  registry is kept.
\<close>

definition ensureRoom :: "Rooms \<Rightarrow> string \<Rightarrow> Rooms \<times> Room" where
  "ensureRoom rooms roomId =
     (case map_of rooms roomId of
        Some room \<Rightarrow> (rooms, room)
      | None \<Rightarrow> (AList.update roomId (newRoom roomId) rooms, newRoom roomId))"

definition addPlayerIn :: "Room \<Rightarrow> string \<Rightarrow> string \<Rightarrow> nat \<Rightarrow> Room" where
  "addPlayerIn room sid nm rnd =
     (let room1 = room\<lparr>players :=
                    AList.update sid \<lparr>socketId = sid, name = nm, score = 0\<rparr> (players room)\<rparr>
      in if \<not> truthy (roundOwner room1)
         then room1\<lparr>roundOwner := Some sid, currentWord := randomWord rnd\<rparr>
         else room1)"

definition addPlayer :: "Rooms \<Rightarrow> string \<Rightarrow> string \<Rightarrow> string \<Rightarrow> nat \<Rightarrow> Rooms" where
  "addPlayer rooms roomId sid nm rnd =
     (let (rooms1, room) = ensureRoom rooms roomId
      in AList.update roomId (addPlayerIn room sid nm rnd) rooms1)"

definition removePlayerIn :: "Room \<Rightarrow> string \<Rightarrow> Room" where
  "removePlayerIn room sid =
     (if mapHas (players room) sid
      then room\<lparr>players := AList.delete sid (players room)\<rparr>
      else room)"

definition removePlayerFromAll :: "Rooms \<Rightarrow> string \<Rightarrow> Rooms" where
  "removePlayerFromAll rooms sid =
     map (\<lambda>(roomId, room). (roomId, removePlayerIn room sid)) rooms"

definition appendShapeIn :: "Room \<Rightarrow> jsval \<Rightarrow> Room" where
  "appendShapeIn room shape = room\<lparr>shapes := shapes room @ [shape]\<rparr>"

definition appendShape :: "Rooms \<Rightarrow> string \<Rightarrow> jsval \<Rightarrow> Rooms" where
  "appendShape rooms roomId shape =
     (let (rooms1, room) = ensureRoom rooms roomId
      in AList.update roomId (appendShapeIn room shape) rooms1)"

record RoomState =
  st_players :: "Player list"
  st_shapes :: "jsval list"
  st_currentWord :: bool
  st_roundOwner :: "string option"

definition getRoomStateIn :: "Room \<Rightarrow> RoomState" where
  "getRoomStateIn room =
     \<lparr>st_players = map snd (players room),
      st_shapes = shapes room,
      st_currentWord = (if truthy (currentWord room) then True else False),
      st_roundOwner = roundOwner room\<rparr>"

definition getRoomState :: "Rooms \<Rightarrow> string \<Rightarrow> Rooms \<times> RoomState" where
  "getRoomState rooms roomId =
     (let (rooms1, room) = ensureRoom rooms roomId in (rooms1, getRoomStateIn room))"

definition getCurrentWord :: "Rooms \<Rightarrow> string \<Rightarrow> string option" where
  "getCurrentWord rooms roomId =
     (case map_of rooms roomId of None \<Rightarrow> None | Some room \<Rightarrow> currentWord room)"

definition setCurrentWordIn :: "Room \<Rightarrow> string \<Rightarrow> string \<Rightarrow> Room" where
  "setCurrentWordIn room word ownerSocketId =
     room\<lparr>currentWord := Some word, roundOwner := Some ownerSocketId\<rparr>"

definition setCurrentWord :: "Rooms \<Rightarrow> string \<Rightarrow> string \<Rightarrow> string \<Rightarrow> Rooms" where
  "setCurrentWord rooms roomId word ownerSocketId =
     (let (rooms1, room) = ensureRoom rooms roomId
      in AList.update roomId (setCurrentWordIn room word ownerSocketId) rooms1)"

text \<open>
  The result object of \<open>checkGuess\<close>: \<open>{correct: false}\<close> has neither \<open>playerName\<close> nor
  \<open>score\<close>; \<open>{correct: true, playerName, score}\<close> has a score and an optional name.
  The guard \<open>!room.currentWord\<close> holds for \<open>undefined\<close> and for the empty string.
  The first argument is \<open>String.prototype.toLowerCase\<close>.
\<close>

datatype GuessResult =
  GuessResult (correct: bool) (playerName: "string option") (resultScore: "int option")

definition checkGuessIn ::
    "(string \<Rightarrow> string) \<Rightarrow> Room \<Rightarrow> string \<Rightarrow> string \<Rightarrow> Room \<times> GuessResult" where
  "checkGuessIn toLowerCase room sid guess =
     (case currentWord room of
        None \<Rightarrow> (room, GuessResult False None None)
      | Some w \<Rightarrow>
          if w = [] then (room, GuessResult False None None)
          else if toLowerCase (trim w) = toLowerCase (trim guess)
          then (case map_of (players room) sid of
                  None \<Rightarrow> (room, GuessResult True None (Some 0))
                | Some player \<Rightarrow>
                    (let player' = player\<lparr>score := score player + 10\<rparr>
                     in (room\<lparr>players := AList.update sid player' (players room)\<rparr>,
                         GuessResult True (Some (name player')) (Some (score player')))))
          else (room, GuessResult False None None))"

definition checkGuess ::
    "(string \<Rightarrow> string) \<Rightarrow> Rooms \<Rightarrow> string \<Rightarrow> string \<Rightarrow> string \<Rightarrow>
     Rooms \<times> GuessResult" where
  "checkGuess toLowerCase rooms roomId sid guess =
     (let (rooms1, room) = ensureRoom rooms roomId;
          (room', result) = checkGuessIn toLowerCase room sid guess
      in (AList.update roomId room' rooms1, result))"

text \<open>
  \<open>startNextRound\<close> returns \<open>null\<close> or \<open>{nextPresenter, newWord}\<close>. The remainder \<open>%\<close>
  of JavaScript takes the sign of the dividend (\<open>smod\<close>). The index read from \<open>players\<close>
  is always in range (lemma \<open>nextPresenterIndex_in_range\<close> below).
\<close>

definition nextPresenterIndex :: "Room \<Rightarrow> int" where
  "nextPresenterIndex room =
     (let ps = map snd (players room);
          currentPresenterIndex = findIndex (\<lambda>p. Some (socketId p) = roundOwner room) ps
      in (currentPresenterIndex + 1) smod int (length ps))"

definition startNextRoundIn :: "Room \<Rightarrow> nat \<Rightarrow> Room \<times> (Player \<times> string option) option" where
  "startNextRoundIn room rnd =
     (if length (players room) = 0 then (room, None)
      else
        (let ps = map snd (players room);
             nextPresenter = ps ! nat (nextPresenterIndex room);
             room' = room\<lparr>roundOwner := Some (socketId nextPresenter),
                          currentWord := randomWord rnd,
                          shapes := []\<rparr>
         in (room', Some (nextPresenter, currentWord room'))))"

definition startNextRound ::
    "Rooms \<Rightarrow> string \<Rightarrow> nat \<Rightarrow> Rooms \<times> (Player \<times> string option) option" where
  "startNextRound rooms roomId rnd =
     (let (rooms1, room) = ensureRoom rooms roomId;
          (room', result) = startNextRoundIn room rnd
      in (AList.update roomId room' rooms1, result))"

text \<open>
  A call of the service. \<open>getCurrentWord\<close> reads without creating the room; every other
  method goes through \<open>ensureRoom\<close> or iterates over the registry. A call of
  \<open>checkGuess\<close> comes with the \<open>String.prototype.toLowerCase\<close> of the runtime it is
  made in.
\<close>

datatype op =
    EnsureRoom string
  | AddPlayer string string string nat
  | RemovePlayerFromAll string
  | AppendShape string jsval
  | GetRoomState string
  | GetCurrentWord string
  | SetCurrentWord string string string
  | CheckGuess "string \<Rightarrow> string" string string string
  | StartNextRound string nat

fun exec :: "op \<Rightarrow> Rooms \<Rightarrow> Rooms" where
  "exec (EnsureRoom roomId) rooms = fst (ensureRoom rooms roomId)"
| "exec (AddPlayer roomId sid nm rnd) rooms = addPlayer rooms roomId sid nm rnd"
| "exec (RemovePlayerFromAll sid) rooms = removePlayerFromAll rooms sid"
| "exec (AppendShape roomId shape) rooms = appendShape rooms roomId shape"
| "exec (GetRoomState roomId) rooms = fst (getRoomState rooms roomId)"
| "exec (GetCurrentWord roomId) rooms = rooms"
| "exec (SetCurrentWord roomId word ownerSocketId) rooms =
     setCurrentWord rooms roomId word ownerSocketId"
| "exec (CheckGuess toLowerCase roomId sid guess) rooms =
     fst (checkGuess toLowerCase rooms roomId sid guess)"
| "exec (StartNextRound roomId rnd) rooms = fst (startNextRound rooms roomId rnd)"

text \<open>A sequence of calls, from the left; the service starts with no room.\<close>

definition run :: "op list \<Rightarrow> Rooms \<Rightarrow> Rooms" where
  "run ops rooms = fold exec ops rooms"

text \<open>The random index of a call is one that \<open>Math.floor(Math.random() * 10)\<close> can give.\<close>

fun rndInRange :: "op \<Rightarrow> bool" where
  "rndInRange (AddPlayer roomId sid nm rnd) = (rnd < length mockWords)"
| "rndInRange (StartNextRound roomId rnd) = (rnd < length mockWords)"
| "rndInRange other = True"

text \<open>A call that supplies no empty string as a socket id or as a word.\<close>

fun nonEmptyArgs :: "op \<Rightarrow> bool" where
  "nonEmptyArgs (AddPlayer roomId sid nm rnd) = (sid \<noteq> [])"
| "nonEmptyArgs (SetCurrentWord roomId word ownerSocketId) = (word \<noteq> [] \<and> ownerSocketId \<noteq> [])"
| "nonEmptyArgs other = True"

text \<open>A room in which no socket id and no word is the empty string.\<close>

definition noEmptyString :: "Room \<Rightarrow> bool" where
  "noEmptyString room =
     (list_all (\<lambda>(k, p). socketId p \<noteq> []) (players room) \<and>
      roundOwner room \<noteq> Some [] \<and> currentWord room \<noteq> Some [])"

text \<open>The room that the service's own accessor \<open>ensureRoom\<close> hands out for a room id.\<close>

definition roomOf :: "Rooms \<Rightarrow> string \<Rightarrow> Room" where
  "roomOf rooms roomId = snd (ensureRoom rooms roomId)"

text \<open>
  What a call does to the room with id \<open>k\<close>: the body of the method when the call
  names that room, nothing otherwise; \<open>removePlayerFromAll\<close> visits every room.
\<close>

fun roomStep :: "op \<Rightarrow> string \<Rightarrow> Room \<Rightarrow> Room" where
  "roomStep (EnsureRoom roomId) k room = room"
| "roomStep (AddPlayer roomId sid nm rnd) k room =
     (if k = roomId then addPlayerIn room sid nm rnd else room)"
| "roomStep (RemovePlayerFromAll sid) k room = removePlayerIn room sid"
| "roomStep (AppendShape roomId shape) k room =
     (if k = roomId then appendShapeIn room shape else room)"
| "roomStep (GetRoomState roomId) k room = room"
| "roomStep (GetCurrentWord roomId) k room = room"
| "roomStep (SetCurrentWord roomId word ownerSocketId) k room =
     (if k = roomId then setCurrentWordIn room word ownerSocketId else room)"
| "roomStep (CheckGuess toLowerCase roomId sid guess) k room =
     (if k = roomId then fst (checkGuessIn toLowerCase room sid guess) else room)"
| "roomStep (StartNextRound roomId rnd) k room =
     (if k = roomId then fst (startNextRoundIn room rnd) else room)"

text \<open>The score stored for a socket id in a room, if the id is a key of the room's players.\<close>

definition scoreOf :: "Rooms \<Rightarrow> string \<Rightarrow> string \<Rightarrow> int option" where
  "scoreOf rooms roomId sid = map_option score (map_of (players (roomOf rooms roomId)) sid)"

fun isAddPlayer :: "string \<Rightarrow> string \<Rightarrow> op \<Rightarrow> bool" where
  "isAddPlayer k sid (AddPlayer roomId sid' nm rnd) = (roomId = k \<and> sid' = sid)"
| "isAddPlayer k sid other = False"

text \<open>
  Every entry of \<open>players\<close> is stored under its own socket id; and the presenter, if set,
  is a key of \<open>players\<close> whose entry has that socket id.
\<close>

definition keysAreIds :: "Room \<Rightarrow> bool" where
  "keysAreIds room = list_all (\<lambda>(k, p). socketId p = k) (players room)"

definition presenterIsMember :: "Room \<Rightarrow> bool" where
  "presenterIsMember room =
     (case roundOwner room of
        None \<Rightarrow> True
      | Some presenter \<Rightarrow>
          (case map_of (players room) presenter of
             None \<Rightarrow> False
           | Some player \<Rightarrow> socketId player = presenter))"

text \<open>
  The calls that can take the presenter out of the players, seen from the room with id
  \<open>k\<close> before the call: \<open>setCurrentWord\<close> on that room with an owner that is not a key
  of its players, and \<open>removePlayerFromAll\<close> of the room's presenter.
\<close>

fun keepsPresenter :: "op \<Rightarrow> string \<Rightarrow> Room \<Rightarrow> bool" where
  "keepsPresenter (SetCurrentWord roomId word ownerSocketId) k room =
     (if k = roomId then mapHas (players room) ownerSocketId else True)"
| "keepsPresenter (RemovePlayerFromAll sid) k room = (roundOwner room \<noteq> Some sid)"
| "keepsPresenter other k room = True"

fun keepsPresenterRun :: "op list \<Rightarrow> Rooms \<Rightarrow> string \<Rightarrow> bool" where
  "keepsPresenterRun [] rooms k = True"
| "keepsPresenterRun (op # ops) rooms k =
     (keepsPresenter op k (roomOf rooms k) \<and> keepsPresenterRun ops (exec op rooms) k)"

section \<open>The gateway\<close>

text \<open>
  The handlers \<open>onJoin\<close>, \<open>onDraw\<close> and \<open>onGuess\<close>. \<open>validateDto\<close> belongs to an
  external library (class-validator); its result for the payload is a parameter of the
  model, and a validation failure is the \<open>WsException\<close> that the handler lets escape.
  What a handler emits is returned as a list, in the order of emission; the warning it
  logs is returned beside it.
\<close>

datatype error = WsException string

record JoinGameDto =
  join_roomId :: string
  join_userName :: string

record DrawDto =
  draw_roomId :: string
  draw_data :: jsval

record GuessDto =
  guess_roomId :: string
  guess_guess :: string

text \<open>
  \<open>Client c\<close> is \<open>client.emit\<close>; \<open>RoomExceptSender r c\<close> is \<open>client.to(r)\<close> and
  \<open>client.broadcast.to(r)\<close>; \<open>ServerTo r\<close> is \<open>this.server.to(r)\<close>, where \<open>r\<close> is a room
  id or the id of a socket.
\<close>

datatype target = Client string | RoomExceptSender string string | ServerTo string

text \<open>
  The messages, with the fields of their payloads in the order of the source:
  \<open>initialState\<close> (the snapshot), \<open>userJoined\<close> (id, name), \<open>presenterAssigned\<close>
  (presenterId, presenterName), \<open>roundStarted\<close> (word), \<open>drawing:remote\<close> (from, data),
  \<open>guessResult\<close> (from, playerName, guess, correct, score), \<open>roundEnded\<close> (winnerId,
  winnerName, score) and \<open>newRoundStarting\<close>.
\<close>

datatype message =
    InitialState RoomState
  | UserJoined string string
  | PresenterAssigned string string
  | RoundStarted "string option"
  | DrawingRemote string jsval
  | GuessResultMsg string "string option" string bool "int option"
  | RoundEnded string "string option" "int option"
  | NewRoundStarting

record Outcome =
  rooms_after :: Rooms
  emitted :: "(target \<times> message) list"
  logged :: "string list"

text \<open>
  The transport (socket.io) keeps, for every room name, the sockets that are in the
  room. From the moment it connects, a socket is in the room named by its own id, which
  is what lets \<open>this.server.to(presenter.socketId)\<close> address one connection;
  \<open>client.join(r)\<close> puts the socket into the room named \<open>r\<close>. The ids of game rooms
  and the ids of sockets are names of the same kind. \<open>this.server.to(r)\<close> delivers to
  every socket in room \<open>r\<close>, \<open>client.to(r)\<close> and \<open>client.broadcast.to(r)\<close> to every
  socket in room \<open>r\<close> but the sender, and \<open>client.emit\<close> to the client.
\<close>

type_synonym Adapter = "(string \<times> string list) list"

definition socketsIn :: "Adapter \<Rightarrow> string \<Rightarrow> string list" where
  "socketsIn adapter room = (case map_of adapter room of None \<Rightarrow> [] | Some sockets \<Rightarrow> sockets)"

definition socketJoin :: "Adapter \<Rightarrow> string \<Rightarrow> string \<Rightarrow> Adapter" where
  "socketJoin adapter sid room =
     AList.update room
       (if sid \<in> set (socketsIn adapter room) then socketsIn adapter room
        else socketsIn adapter room @ [sid])
       adapter"

definition socketConnect :: "Adapter \<Rightarrow> string \<Rightarrow> Adapter" where
  "socketConnect adapter sid = socketJoin adapter sid sid"

definition recipients :: "Adapter \<Rightarrow> target \<Rightarrow> string list" where
  "recipients adapter t =
     (case t of
        Client c \<Rightarrow> [c]
      | RoomExceptSender room c \<Rightarrow> filter (\<lambda>sid. sid \<noteq> c) (socketsIn adapter room)
      | ServerTo room \<Rightarrow> socketsIn adapter room)"

text \<open>What is delivered: each emitted message, paired with every socket that receives it.\<close>

definition delivered :: "Adapter \<Rightarrow> (target \<times> message) list \<Rightarrow> (string \<times> message) list" where
  "delivered adapter ems =
     concat (map (\<lambda>(t, m). map (\<lambda>sid. (sid, m)) (recipients adapter t)) ems)"

text \<open>
  \<open>onJoin\<close>: \<open>onJoinDto\<close> is the body of the handler on the DTO that validation
  returned. It changes the transport too (\<open>client.join\<close>).
\<close>

record JoinOutcome = Outcome +
  adapter_after :: Adapter

definition onJoinDto :: "Adapter \<Rightarrow> Rooms \<Rightarrow> string \<Rightarrow> JoinGameDto \<Rightarrow> nat \<Rightarrow> JoinOutcome" where
  "onJoinDto adapter rooms clientId dto rnd =
     (let adapter1 = socketJoin adapter clientId (join_roomId dto);
          rooms1 = addPlayer rooms (join_roomId dto) clientId (join_userName dto) rnd;
          (rooms2, roomState) = getRoomState rooms1 (join_roomId dto);
          presenter = find (\<lambda>p. Some (socketId p) = st_roundOwner roomState)
                        (st_players roomState)
      in \<lparr>rooms_after = rooms2,
          emitted =
            [(Client clientId, InitialState roomState),
             (RoomExceptSender (join_roomId dto) clientId,
                UserJoined clientId (join_userName dto))] @
            (case presenter of
               None \<Rightarrow> []
             | Some p \<Rightarrow>
                 (ServerTo (join_roomId dto), PresenterAssigned (socketId p) (name p)) #
                 (case getCurrentWord rooms2 (join_roomId dto) of
                    None \<Rightarrow> []
                  | Some word \<Rightarrow>
                      if word = [] then []
                      else [(ServerTo (socketId p), RoundStarted (Some word))])),
          logged = [],
          adapter_after = adapter1\<rparr>)"

definition onJoin ::
    "(jsval \<Rightarrow> error + JoinGameDto) \<Rightarrow> Adapter \<Rightarrow> Rooms \<Rightarrow> string \<Rightarrow> jsval \<Rightarrow> nat \<Rightarrow>
     error + JoinOutcome" where
  "onJoin validateDto adapter rooms clientId payload rnd =
     (case validateDto payload of
        Inl e \<Rightarrow> Inl e
      | Inr dto \<Rightarrow> Inr (onJoinDto adapter rooms clientId dto rnd))"

text \<open>The transport and the registry that a join leaves behind.\<close>

definition afterJoin ::
    "Adapter \<times> Rooms \<Rightarrow> string \<Rightarrow> JoinGameDto \<Rightarrow> nat \<Rightarrow> Adapter \<times> Rooms" where
  "afterJoin state clientId dto rnd =
     (let out = onJoinDto (fst state) (snd state) clientId dto rnd
      in (adapter_after out, rooms_after out))"

definition onDraw ::
    "(jsval \<Rightarrow> error + DrawDto) \<Rightarrow> Rooms \<Rightarrow> string \<Rightarrow> jsval \<Rightarrow> error + Outcome" where
  "onDraw validateDto rooms clientId payload =
     (case validateDto payload of
        Inl e \<Rightarrow> Inl e
      | Inr dto \<Rightarrow>
          (let (rooms1, roomState) = getRoomState rooms (draw_roomId dto)
           in if Some clientId \<noteq> st_roundOwner roomState
              then Inr \<lparr>rooms_after = rooms1, emitted = [],
                        logged = [''Client '' @ clientId @
                                  '' tried to draw but is not the presenter.'']\<rparr>
              else Inr \<lparr>rooms_after = appendShape rooms1 (draw_roomId dto) (draw_data dto),
                        emitted = [(RoomExceptSender (draw_roomId dto) clientId,
                                      DrawingRemote clientId (draw_data dto))],
                        logged = []\<rparr>))"

text \<open>
  The validator of \<open>DrawDto\<close> as its decorators describe it (\<open>@IsString() roomId\<close>,
  \<open>@IsObject() data\<close>), used to run \<open>onDraw\<close> on concrete payloads.
\<close>

definition property :: "jsval \<Rightarrow> string \<Rightarrow> jsval" where
  "property v k =
     (case v of
        JObj kvs \<Rightarrow> (case map_of kvs k of None \<Rightarrow> JUndefined | Some x \<Rightarrow> x)
      | _ \<Rightarrow> JUndefined)"

definition validateDrawDto :: "jsval \<Rightarrow> error + DrawDto" where
  "validateDrawDto payload =
     (case (property payload ''roomId'', property payload ''data'') of
        (JStr roomId, JObj kvs) \<Rightarrow> Inr \<lparr>draw_roomId = roomId, draw_data = JObj kvs\<rparr>
      | _ \<Rightarrow> Inl (WsException ''Validation failed''))"

text \<open>
  \<open>onGuess\<close>: \<open>onGuessDto\<close> is the body of the handler on the DTO that validation
  returned. The object spread \<open>...res\<close> puts \<open>playerName\<close> and \<open>score\<close> of a correct
  result over the fields before it. \<open>setTimeout(callback, 3000)\<close> is returned as an
  entry of \<open>scheduled\<close>: the delay in milliseconds and the room id on which the callback
  will call \<open>startNextRound\<close>; \<open>onNextRoundTimer\<close> is the callback.
\<close>

record GuessOutcome = Outcome +
  scheduled :: "(nat \<times> string) list"

definition onGuessDto ::
    "(string \<Rightarrow> string) \<Rightarrow> Rooms \<Rightarrow> string \<Rightarrow> GuessDto \<Rightarrow> GuessOutcome" where
  "onGuessDto toLowerCase rooms clientId dto =
     (let (rooms1, res) =
            checkGuess toLowerCase rooms (guess_roomId dto) clientId (guess_guess dto);
          (rooms2, roomState) = getRoomState rooms1 (guess_roomId dto);
          guesser = find (\<lambda>p. socketId p = clientId) (st_players roomState)
      in \<lparr>rooms_after = rooms2,
          emitted =
            (ServerTo (guess_roomId dto),
               GuessResultMsg clientId
                 (if correct res then playerName res else map_option name guesser)
                 (guess_guess dto) (correct res) (resultScore res)) #
            (if correct res
             then [(ServerTo (guess_roomId dto),
                      RoundEnded clientId (map_option name guesser) (resultScore res))]
             else []),
          logged = [],
          scheduled = (if correct res then [(3000, guess_roomId dto)] else [])\<rparr>)"

definition onGuess ::
    "(jsval \<Rightarrow> error + GuessDto) \<Rightarrow> (string \<Rightarrow> string) \<Rightarrow> Rooms \<Rightarrow> string \<Rightarrow> jsval \<Rightarrow>
     error + GuessOutcome" where
  "onGuess validateDto toLowerCase rooms clientId payload =
     (case validateDto payload of
        Inl e \<Rightarrow> Inl e
      | Inr dto \<Rightarrow> Inr (onGuessDto toLowerCase rooms clientId dto))"


section \<open>Basic facts about the registry\<close>

lemma update_absent: "map_of al k = None \<Longrightarrow> AList.update k v al = al @ [(k, v)]"
  by (induction al) (auto split: if_splits)

lemma ensureRoom_Some: "map_of rooms r = Some room \<Longrightarrow> ensureRoom rooms r = (rooms, room)"
  by (simp add: ensureRoom_def)

lemma ensureRoom_None:
  "map_of rooms r = None \<Longrightarrow> ensureRoom rooms r = (rooms @ [(r, newRoom r)], newRoom r)"
  by (simp add: ensureRoom_def update_absent)

lemma roomOf_eq:
  "roomOf rooms r = (case map_of rooms r of None \<Rightarrow> newRoom r | Some room \<Rightarrow> room)"
  by (simp add: roomOf_def ensureRoom_def split: option.splits)

lemma map_of_ensureRoom:
  "map_of (fst (ensureRoom rooms r)) k = (if k = r then Some (roomOf rooms r) else map_of rooms k)"
  by (auto simp: roomOf_def ensureRoom_def update_conv' split: option.splits)

lemma ensureRoom_again:
  "ensureRoom (fst (ensureRoom rooms r)) r = ensureRoom rooms r"
proof -
  have "map_of (fst (ensureRoom rooms r)) r = Some (snd (ensureRoom rooms r))"
    by (simp add: map_of_ensureRoom roomOf_def)
  then have "ensureRoom (fst (ensureRoom rooms r)) r =
      (fst (ensureRoom rooms r), snd (ensureRoom rooms r))"
    by (rule ensureRoom_Some)
  then show ?thesis by simp
qed

section \<open>Every call acts on rooms one by one\<close>

lemma snd_ensureRoom: "snd (ensureRoom rooms r) = roomOf rooms r"
  by (simp add: roomOf_def)

lemma map_of_write_back:
  "map_of (AList.update r x (fst (ensureRoom rooms r))) k = (if k = r then Some x else map_of rooms k)"
  by (simp add: update_conv' map_of_ensureRoom)

lemma roomOf_write_back:
  "roomOf (AList.update r x (fst (ensureRoom rooms r))) k = (if k = r then x else roomOf rooms k)"
  by (simp add: roomOf_eq map_of_write_back)

lemma roomOf_ensureRoom: "roomOf (fst (ensureRoom rooms r)) k = roomOf rooms k"
  by (simp add: roomOf_eq [of "fst (ensureRoom rooms r)"] map_of_ensureRoom) (simp add: roomOf_eq)

lemma write_back_same:
  "AList.update r (roomOf rooms r) (fst (ensureRoom rooms r)) = fst (ensureRoom rooms r)"
  by (rule update_triv) (simp add: map_of_ensureRoom)

lemma map_of_removePlayerFromAll:
  "map_of (removePlayerFromAll rooms sid) k = map_option (\<lambda>room. removePlayerIn room sid) (map_of rooms k)"
  by (induction rooms) (auto simp: removePlayerFromAll_def)

lemma removePlayerIn_newRoom: "removePlayerIn (newRoom k) sid = newRoom k"
  by (simp add: removePlayerIn_def newRoom_def mapHas_def)

lemma roomOf_removePlayerFromAll:
  "roomOf (removePlayerFromAll rooms sid) k = removePlayerIn (roomOf rooms k) sid"
  by (simp add: roomOf_eq map_of_removePlayerFromAll removePlayerIn_newRoom split: option.splits)

lemma roomOf_exec: "roomOf (exec op rooms) k = roomStep op k (roomOf rooms k)"
proof (cases op)
  case (EnsureRoom r)
  then show ?thesis by (simp add: roomOf_ensureRoom)
next
  case (AddPlayer r sid nm rnd)
  then show ?thesis
    by (simp add: addPlayer_def split_beta snd_ensureRoom roomOf_write_back)
next
  case (RemovePlayerFromAll sid)
  then show ?thesis by (simp add: roomOf_removePlayerFromAll)
next
  case (AppendShape r x)
  then show ?thesis
    by (simp add: appendShape_def split_beta snd_ensureRoom roomOf_write_back)
next
  case (GetRoomState r)
  then show ?thesis
    by (simp add: getRoomState_def split_beta snd_ensureRoom roomOf_ensureRoom)
next
  case (GetCurrentWord r)
  then show ?thesis by simp
next
  case (SetCurrentWord r w ow)
  then show ?thesis
    by (simp add: setCurrentWord_def split_beta snd_ensureRoom roomOf_write_back)
next
  case (CheckGuess lower r sid g)
  then show ?thesis
    by (simp add: checkGuess_def split_beta snd_ensureRoom roomOf_write_back)
next
  case (StartNextRound r rnd)
  then show ?thesis
    by (simp add: startNextRound_def split_beta snd_ensureRoom roomOf_write_back)
qed

lemma roomOf_run: "roomOf (run ops rooms) k = fold (\<lambda>op. roomStep op k) ops (roomOf rooms k)"
  by (induction ops arbitrary: rooms) (simp_all add: run_def roomOf_exec)

lemma map_of_roomOf: "map_of rooms k = Some room \<Longrightarrow> roomOf rooms k = room"
  by (simp add: roomOf_eq)

lemma roomOf_empty: "roomOf [] k = newRoom k"
  by (simp add: roomOf_eq)

section \<open>The registry creates rooms lazily and idempotently\<close>

text \<open>
  Claim C9. \<open>ensureRoom\<close> is a total function with no error value. On an unseen id it
  appends a room with no player, no stroke, no presenter and no secret, and returns it;
  on a known id it returns the stored room and leaves the registry as it is. A second
  call with the same id returns the same registry and the same room as the first call,
  so calling it twice has the effect of calling it once.
\<close>

theorem ensureRoom_idempotent:
  "ensureRoom (fst (ensureRoom rooms roomId)) roomId = ensureRoom rooms roomId \<and>
   map_of (fst (ensureRoom rooms roomId)) roomId = Some (snd (ensureRoom rooms roomId)) \<and>
   exec (EnsureRoom roomId) (exec (EnsureRoom roomId) rooms) = exec (EnsureRoom roomId) rooms \<and>
   (case map_of rooms roomId of
      Some room \<Rightarrow> ensureRoom rooms roomId = (rooms, room)
    | None \<Rightarrow>
        ensureRoom rooms roomId =
          (rooms @ [(roomId, \<lparr>id_room = roomId, players = [], shapes = [],
                               currentWord = None, roundOwner = None\<rparr>)],
           \<lparr>id_room = roomId, players = [], shapes = [],
             currentWord = None, roundOwner = None\<rparr>))"
proof -
  have a: "ensureRoom (fst (ensureRoom rooms roomId)) roomId = ensureRoom rooms roomId"
    by (rule ensureRoom_again)
  have b: "map_of (fst (ensureRoom rooms roomId)) roomId = Some (snd (ensureRoom rooms roomId))"
    by (simp add: map_of_ensureRoom roomOf_def)
  have c: "exec (EnsureRoom roomId) (exec (EnsureRoom roomId) rooms) =
      exec (EnsureRoom roomId) rooms"
    by (simp add: a)
  have d: "(case map_of rooms roomId of
      Some room \<Rightarrow> ensureRoom rooms roomId = (rooms, room)
    | None \<Rightarrow>
        ensureRoom rooms roomId =
          (rooms @ [(roomId, \<lparr>id_room = roomId, players = [], shapes = [],
                               currentWord = None, roundOwner = None\<rparr>)],
           \<lparr>id_room = roomId, players = [], shapes = [],
             currentWord = None, roundOwner = None\<rparr>))"
    by (cases "map_of rooms roomId")
       (simp_all add: ensureRoom_None ensureRoom_Some newRoom_def)
  from a b c d show ?thesis by blast
qed

section \<open>Presenter and secret are assigned together\<close>

lemma roomStep_paired:
  assumes "rndInRange op" and "(roundOwner room = None) = (currentWord room = None)"
  shows "(roundOwner (roomStep op k room) = None) = (currentWord (roomStep op k room) = None)"
proof (cases op)
  case (AddPlayer r sid nm rnd)
  with assms show ?thesis
    by (simp add: addPlayerIn_def Let_def randomWord_def)
next
  case (RemovePlayerFromAll sid)
  with assms show ?thesis by (simp add: removePlayerIn_def)
next
  case (AppendShape r x)
  with assms show ?thesis by (simp add: appendShapeIn_def)
next
  case (SetCurrentWord r w ow)
  with assms show ?thesis by (simp add: setCurrentWordIn_def)
next
  case (CheckGuess lower r sid g)
  with assms show ?thesis
    by (simp add: checkGuessIn_def Let_def split: option.splits)
next
  case (StartNextRound r rnd)
  with assms show ?thesis
    by (simp add: startNextRoundIn_def Let_def randomWord_def)
qed (use assms in simp_all)

lemma fold_roomStep_paired:
  "list_all rndInRange ops \<Longrightarrow> (roundOwner room = None) = (currentWord room = None) \<Longrightarrow>
   (roundOwner (fold (\<lambda>op. roomStep op k) ops room) = None) =
   (currentWord (fold (\<lambda>op. roomStep op k) ops room) = None)"
proof (induction ops arbitrary: room)
  case Nil
  then show ?case by simp
next
  case (Cons op ops)
  from Cons.prems have "rndInRange op" and rest: "list_all rndInRange ops" by simp_all
  with Cons.prems(2)
  have "(roundOwner (roomStep op k room) = None) = (currentWord (roomStep op k room) = None)"
    by (simp only: roomStep_paired)
  with rest Cons.IH show ?case by simp
qed

text \<open>
  Claim C1. Start from the empty registry and make any sequence of calls of the service
  (\<open>ensureRoom\<close>, \<open>addPlayer\<close>, \<open>removePlayerFromAll\<close>, \<open>appendShape\<close>, \<open>getRoomState\<close>,
  \<open>getCurrentWord\<close>, \<open>setCurrentWord\<close>, \<open>checkGuess\<close>, \<open>startNextRound\<close>) whose random
  indices are ones \<open>Math.floor(Math.random() * 10)\<close> can give. Then in every room of the
  registry the field \<open>roundOwner\<close> is set (not \<open>undefined\<close>) if and only if the field
  \<open>currentWord\<close> is set (not \<open>undefined\<close>).
\<close>

theorem presenter_set_iff_secret_set:
  assumes "list_all rndInRange ops" and "map_of (run ops []) roomId = Some room"
  shows "(roundOwner room \<noteq> None) = (currentWord room \<noteq> None)"
proof -
  have "room = fold (\<lambda>op. roomStep op roomId) ops (newRoom roomId)"
    using assms(2) map_of_roomOf roomOf_run roomOf_empty by metis
  moreover have "(roundOwner (newRoom roomId) = None) = (currentWord (newRoom roomId) = None)"
    by (simp add: newRoom_def)
  ultimately show ?thesis
    using fold_roomStep_paired [OF assms(1), of "newRoom roomId" roomId] by simp
qed

theorem presenter_set_iff_secret_set_witness:
  "list_all rndInRange
     [AddPlayer ''r1'' ''A'' ''alice'' 0, RemovePlayerFromAll ''A'', StartNextRound ''r1'' 3,
      AddPlayer ''r1'' ''B'' ''bob'' 7, StartNextRound ''r1'' 3,
      SetCurrentWord ''r2'' ''cat'' ''Z''] \<and>
   map_of (run
     [AddPlayer ''r1'' ''A'' ''alice'' 0, RemovePlayerFromAll ''A'', StartNextRound ''r1'' 3,
      AddPlayer ''r1'' ''B'' ''bob'' 7, StartNextRound ''r1'' 3,
      SetCurrentWord ''r2'' ''cat'' ''Z''] []) ''r1'' =
     Some \<lparr>id_room = ''r1'',
            players = [(''B'', \<lparr>socketId = ''B'', name = ''bob'', score = 0\<rparr>)],
            shapes = [], currentWord = Some (mockWords ! 3), roundOwner = Some ''B''\<rparr> \<and>
   (roundOwner \<lparr>id_room = ''r1'',
            players = [(''B'', \<lparr>socketId = ''B'', name = ''bob'', score = 0\<rparr>)],
            shapes = [], currentWord = Some (mockWords ! 3), roundOwner = Some ''B''\<rparr> \<noteq> None) =
   (currentWord \<lparr>id_room = ''r1'',
            players = [(''B'', \<lparr>socketId = ''B'', name = ''bob'', score = 0\<rparr>)],
            shapes = [], currentWord = Some (mockWords ! 3), roundOwner = Some ''B''\<rparr> \<noteq> None)"
proof -
  have h1: "list_all rndInRange
     [AddPlayer ''r1'' ''A'' ''alice'' 0, RemovePlayerFromAll ''A'', StartNextRound ''r1'' 3,
      AddPlayer ''r1'' ''B'' ''bob'' 7, StartNextRound ''r1'' 3,
      SetCurrentWord ''r2'' ''cat'' ''Z'']"
    by (simp add: mockWords_def)
  have h2: "map_of (run
     [AddPlayer ''r1'' ''A'' ''alice'' 0, RemovePlayerFromAll ''A'', StartNextRound ''r1'' 3,
      AddPlayer ''r1'' ''B'' ''bob'' 7, StartNextRound ''r1'' 3,
      SetCurrentWord ''r2'' ''cat'' ''Z''] []) ''r1'' =
     Some \<lparr>id_room = ''r1'',
            players = [(''B'', \<lparr>socketId = ''B'', name = ''bob'', score = 0\<rparr>)],
            shapes = [], currentWord = Some (mockWords ! 3), roundOwner = Some ''B''\<rparr>"
    by code_simp
  from h1 h2 presenter_set_iff_secret_set [OF h1 h2] show ?thesis by blast
qed

section \<open>What trim does\<close>

text \<open>
  \<open>trim s\<close> is \<open>s\<close> without a run of white space at its start and a run of white
  space at its end, and it neither starts nor ends with white space.
\<close>

lemma startMatch_SomeD:
  "startMatch pats s = Some p \<Longrightarrow> p \<in> set pats \<and> p \<noteq> [] \<and> s = p @ drop (length p) s"
proof -
  assume "startMatch pats s = Some p"
  then have "p \<in> set pats" and "p \<noteq> []" and "take (length p) s = p"
    by (auto simp: startMatch_def find_Some_iff)
  moreover from this have "s = p @ drop (length p) s"
    by (metis append_take_drop_id)
  ultimately show ?thesis by simp
qed

lemma stripStart_decompose: "\<exists>pre. runOf pats pre \<and> s = pre @ stripStart pats s"
proof (induction pats s rule: stripStart.induct)
  case (1 pats s)
  show ?case
  proof (cases "startMatch pats s")
    case None
    then have "stripStart pats s = s" by (simp add: stripStart.simps [of pats s])
    then show ?thesis using runOf.empty [of pats] by auto
  next
    case (Some p)
    from "1" [OF Some] obtain pre
      where pre: "runOf pats pre"
        and eq: "drop (length p) s = pre @ stripStart pats (drop (length p) s)"
      by blast
    from startMatch_SomeD [OF Some] have mem: "p \<in> set pats"
      and s: "s = p @ drop (length p) s" by simp_all
    from Some have st: "stripStart pats s = stripStart pats (drop (length p) s)"
      by (simp add: stripStart.simps [of pats s])
    from mem pre have "runOf pats (p @ pre)" by (rule runOf.more)
    moreover from s eq st have "s = (p @ pre) @ stripStart pats s" by (metis append.assoc)
    ultimately show ?thesis by blast
  qed
qed

lemma stripStart_done: "startMatch pats (stripStart pats s) = None"
proof (induction pats s rule: stripStart.induct)
  case (1 pats s)
  show ?case
  proof (cases "startMatch pats s")
    case None
    then show ?thesis by (simp add: stripStart.simps [of pats s])
  next
    case (Some p)
    with "1" [OF Some] show ?thesis by (simp add: stripStart.simps [of pats s])
  qed
qed

lemma runOf_snoc: "runOf pats r \<Longrightarrow> p \<in> set pats \<Longrightarrow> runOf pats (r @ p)"
proof (induction rule: runOf.induct)
  case empty
  then show ?case using runOf.more [OF _ runOf.empty, of p pats] by simp
next
  case (more q r)
  then show ?case using runOf.more [of q pats "r @ p"] by simp
qed

lemma runOf_rev: "runOf (map rev pats) q \<Longrightarrow> runOf pats (rev q)"
proof (induction rule: runOf.induct)
  case empty
  then show ?case by (simp add: runOf.empty)
next
  case (more p r)
  then obtain p' where "p' \<in> set pats" and "p = rev p'" by auto
  with more.IH show ?case by (simp add: runOf_snoc)
qed

lemma trim_decompose:
  "\<exists>pre post. runOf whiteSpace pre \<and> runOf whiteSpace post \<and> s = pre @ trim s @ post"
proof -
  obtain pre where pre: "runOf whiteSpace pre" and s: "s = pre @ stripStart whiteSpace s"
    using stripStart_decompose by blast
  obtain q where q: "runOf (map rev whiteSpace) q"
    and r: "rev (stripStart whiteSpace s) =
            q @ stripStart (map rev whiteSpace) (rev (stripStart whiteSpace s))"
    using stripStart_decompose by blast
  from r have "stripStart whiteSpace s = trim s @ rev q"
    by (metis rev_append rev_rev_ident trim_def)
  with s have "s = pre @ trim s @ rev q" by simp
  with pre runOf_rev [OF q] show ?thesis by blast
qed

lemma startMatch_prefix:
  assumes "startMatch pats (a @ b) = None"
  shows "startMatch pats a = None"
proof (rule ccontr)
  assume "startMatch pats a \<noteq> None"
  then obtain p where "startMatch pats a = Some p" by auto
  then have "p \<in> set pats" and "p \<noteq> []" and "a = p @ drop (length p) a"
    using startMatch_SomeD by blast+
  then have "p \<in> set pats \<and> p \<noteq> [] \<and> take (length p) (a @ b) = p"
    by (metis append.assoc append_eq_conv_conj)
  with assms show False by (auto simp: startMatch_def find_None_iff)
qed

lemma trim_no_leading: "startMatch whiteSpace (trim s) = None"
proof -
  obtain q where "rev (stripStart whiteSpace s) =
            q @ stripStart (map rev whiteSpace) (rev (stripStart whiteSpace s))"
    using stripStart_decompose by blast
  then have "stripStart whiteSpace s = trim s @ rev q"
    by (metis rev_append rev_rev_ident trim_def)
  with stripStart_done [of whiteSpace s] show ?thesis
    by (metis startMatch_prefix)
qed

lemma trim_no_trailing: "startMatch (map rev whiteSpace) (rev (trim s)) = None"
  by (simp add: trim_def stripStart_done)

lemma trim_examples:
  "trim ''Apple '' = ''Apple''"
  "trim ''apple'' = ''apple''"
  "trim (''apple'' @ [CHR 0xE3, CHR 0x80, CHR 0x80]) = ''apple''"
  "trim ([CHR 0x09, CHR 0xC2, CHR 0xA0] @ ''a b'' @ [CHR 0xEF, CHR 0xBB, CHR 0xBF, CHR 0x0A]) = ''a b''"
  "trim ''  '' = []"
  by code_simp+

section \<open>Evaluating a guess\<close>

lemma checkGuess_eq:
  "checkGuess toLowerCase rooms r sid g =
     (AList.update r (fst (checkGuessIn toLowerCase (roomOf rooms r) sid g))
        (fst (ensureRoom rooms r)),
      snd (checkGuessIn toLowerCase (roomOf rooms r) sid g))"
  by (simp add: checkGuess_def split_beta snd_ensureRoom)

lemma checkGuessIn_falsy:
  "\<not> truthy (currentWord room) \<Longrightarrow>
   checkGuessIn toLowerCase room sid g = (room, GuessResult False None None)"
  by (simp add: checkGuessIn_def truthy_def split: option.splits)

lemma checkGuessIn_correct_iff:
  "currentWord room = Some w \<Longrightarrow> w \<noteq> [] \<Longrightarrow>
   correct (snd (checkGuessIn toLowerCase room sid g)) =
     (toLowerCase (trim w) = toLowerCase (trim g))"
  by (simp add: checkGuessIn_def Let_def split: option.splits)

lemma checkGuessIn_incorrect:
  "\<not> correct (snd (checkGuessIn toLowerCase room sid g)) \<Longrightarrow>
   fst (checkGuessIn toLowerCase room sid g) = room"
  by (simp add: checkGuessIn_def Let_def split: option.splits if_splits)

lemma checkGuessIn_member:
  "correct (snd (checkGuessIn toLowerCase room sid g)) \<Longrightarrow>
   map_of (players room) sid = Some p \<Longrightarrow>
   checkGuessIn toLowerCase room sid g =
     (room\<lparr>players := AList.update sid (p\<lparr>score := score p + 10\<rparr>) (players room)\<rparr>,
      GuessResult True (Some (name p)) (Some (score p + 10)))"
  by (auto simp: checkGuessIn_def Let_def split: option.splits if_splits)


lemma roomOf_setCurrentWord:
  "roomOf (setCurrentWord rooms r w ow) k =
     (if k = r then setCurrentWordIn (roomOf rooms r) w ow else roomOf rooms k)"
  using roomOf_exec [of "SetCurrentWord r w ow" rooms k] by simp

text \<open>
  Claim C2, as stated, fails: the guard \<open>!room.currentWord\<close> takes a secret that is set
  to the empty string for no secret. After \<open>setCurrentWord\<close> with the empty word, a
  guess of two spaces is equal to the secret once both are trimmed and lower-cased, and
  \<open>checkGuess\<close> returns \<open>{correct: false}\<close>.
\<close>

theorem empty_secret_never_matches:
  "currentWord (roomOf (run [AddPlayer ''r1'' ''A'' ''alice'' 0, AddPlayer ''r1'' ''B'' ''bob'' 0,
                             SetCurrentWord ''r1'' [] ''A''] []) ''r1'') = Some [] \<and>
   toLowerCaseAscii (trim []) = toLowerCaseAscii (trim ''  '') \<and>
   checkGuess toLowerCaseAscii
     (run [AddPlayer ''r1'' ''A'' ''alice'' 0, AddPlayer ''r1'' ''B'' ''bob'' 0,
           SetCurrentWord ''r1'' [] ''A''] []) ''r1'' ''B'' ''  '' =
     (run [AddPlayer ''r1'' ''A'' ''alice'' 0, AddPlayer ''r1'' ''B'' ''bob'' 0,
           SetCurrentWord ''r1'' [] ''A''] [],
      GuessResult False None None)"
  by code_simp

text \<open>
  Claim C2, amended. Let \<open>room\<close> be the room that \<open>ensureRoom\<close> hands out for the id and
  let \<open>checkGuess\<close> return the registry \<open>rooms'\<close> and the result \<open>res\<close>.
  \<^item> If the room has no secret set, or the secret is the empty string, the result is
    \<open>{correct: false}\<close>.
  \<^item> Otherwise \<open>correct\<close> is true exactly when the secret and the guess are equal after
    \<open>trim\<close> and \<open>toLowerCase\<close> are applied to both.
  \<^item> On a match where the guesser is a member, the result carries the player's score
    plus 10, the stored score of that player is this new score, and no other player's
    entry changes.
  \<^item> On a result that is not correct the registry is the one \<open>ensureRoom\<close> returned,
    and every room is as it was.
  \<^item> Secret \<open>"Apple "\<close> against guess \<open>"apple"\<close> is correct exactly when \<open>toLowerCase\<close>
    maps \<open>"Apple"\<close> and \<open>"apple"\<close> to the same string, as \<open>String.prototype.toLowerCase\<close>
    does.
  The witness runs a guess that ends in U+3000 against the secret \<open>"Apple "\<close>.
\<close>

theorem checkGuess_spec:
  assumes "checkGuess toLowerCase rooms roomId sid guess = (rooms', res)"
  shows
   "(currentWord (roomOf rooms roomId) = None \<or> currentWord (roomOf rooms roomId) = Some [] \<longrightarrow>
        res = GuessResult False None None) \<and>
    (\<forall>w. currentWord (roomOf rooms roomId) = Some w \<and> w \<noteq> [] \<longrightarrow>
        correct res = (toLowerCase (trim w) = toLowerCase (trim guess))) \<and>
    (\<forall>p. correct res \<and> map_of (players (roomOf rooms roomId)) sid = Some p \<longrightarrow>
        resultScore res = Some (score p + 10) \<and>
        map_of (players (roomOf rooms' roomId)) sid = Some (p\<lparr>score := score p + 10\<rparr>) \<and>
        (\<forall>other. other \<noteq> sid \<longrightarrow>
           map_of (players (roomOf rooms' roomId)) other =
           map_of (players (roomOf rooms roomId)) other)) \<and>
    (\<not> correct res \<longrightarrow>
        rooms' = fst (ensureRoom rooms roomId) \<and> (\<forall>k. roomOf rooms' k = roomOf rooms k)) \<and>
    correct (snd (checkGuess toLowerCase (setCurrentWord rooms roomId ''Apple '' owner)
                    roomId sid ''apple'')) =
      (toLowerCase ''Apple'' = toLowerCase ''apple'')"
proof -
  let ?room = "roomOf rooms roomId"
  from assms have res: "res = snd (checkGuessIn toLowerCase ?room sid guess)"
    and rooms': "rooms' = AList.update roomId (fst (checkGuessIn toLowerCase ?room sid guess))
                    (fst (ensureRoom rooms roomId))"
    by (simp_all add: checkGuess_eq)
  have room': "roomOf rooms' roomId = fst (checkGuessIn toLowerCase ?room sid guess)"
    by (simp add: rooms' roomOf_write_back)
  have a: "currentWord ?room = None \<or> currentWord ?room = Some [] \<longrightarrow>
        res = GuessResult False None None"
    by (auto simp: res checkGuessIn_falsy truthy_def)
  have b: "\<forall>w. currentWord ?room = Some w \<and> w \<noteq> [] \<longrightarrow>
        correct res = (toLowerCase (trim w) = toLowerCase (trim guess))"
    by (simp add: res checkGuessIn_correct_iff)
  have c: "\<forall>p. correct res \<and> map_of (players ?room) sid = Some p \<longrightarrow>
        resultScore res = Some (score p + 10) \<and>
        map_of (players (roomOf rooms' roomId)) sid = Some (p\<lparr>score := score p + 10\<rparr>) \<and>
        (\<forall>other. other \<noteq> sid \<longrightarrow>
           map_of (players (roomOf rooms' roomId)) other = map_of (players ?room) other)"
  proof (intro allI impI)
    fix p
    assume "correct res \<and> map_of (players ?room) sid = Some p"
    then have "checkGuessIn toLowerCase ?room sid guess =
        (?room\<lparr>players := AList.update sid (p\<lparr>score := score p + 10\<rparr>) (players ?room)\<rparr>,
         GuessResult True (Some (name p)) (Some (score p + 10)))"
      unfolding res by (intro checkGuessIn_member) simp_all
    then show "resultScore res = Some (score p + 10) \<and>
        map_of (players (roomOf rooms' roomId)) sid = Some (p\<lparr>score := score p + 10\<rparr>) \<and>
        (\<forall>other. other \<noteq> sid \<longrightarrow>
           map_of (players (roomOf rooms' roomId)) other = map_of (players ?room) other)"
      by (simp add: res room' update_conv')
  qed
  have d: "\<not> correct res \<longrightarrow>
        rooms' = fst (ensureRoom rooms roomId) \<and> (\<forall>k. roomOf rooms' k = roomOf rooms k)"
  proof
    assume "\<not> correct res"
    then have "fst (checkGuessIn toLowerCase ?room sid guess) = ?room"
      unfolding res by (rule checkGuessIn_incorrect)
    then have "rooms' = fst (ensureRoom rooms roomId)"
      by (simp add: rooms' write_back_same)
    then show "rooms' = fst (ensureRoom rooms roomId) \<and> (\<forall>k. roomOf rooms' k = roomOf rooms k)"
      by (simp add: roomOf_ensureRoom)
  qed
  have e: "correct (snd (checkGuess toLowerCase (setCurrentWord rooms roomId ''Apple '' owner)
              roomId sid ''apple'')) = (toLowerCase ''Apple'' = toLowerCase ''apple'')"
    by (simp add: checkGuess_eq roomOf_setCurrentWord setCurrentWordIn_def
        checkGuessIn_correct_iff trim_examples)
  from a b c d e show ?thesis by blast
qed

theorem checkGuess_spec_witness:
  "checkGuess toLowerCaseAscii (run [AddPlayer ''r1'' ''A'' ''alice'' 0, AddPlayer ''r1'' ''B'' ''bob'' 4,
      SetCurrentWord ''r1'' ''Apple '' ''A''] []) ''r1'' ''B'' (''apple'' @ [CHR 0xE3, CHR 0x80, CHR 0x80]) =
     (AList.update ''r1''
        ((roomOf (run [AddPlayer ''r1'' ''A'' ''alice'' 0, AddPlayer ''r1'' ''B'' ''bob'' 4,
      SetCurrentWord ''r1'' ''Apple '' ''A''] []) ''r1'')
           \<lparr>players := [(''A'', \<lparr>socketId = ''A'', name = ''alice'', score = 0\<rparr>),
                        (''B'', \<lparr>socketId = ''B'', name = ''bob'', score = 10\<rparr>)]\<rparr>)
        (run [AddPlayer ''r1'' ''A'' ''alice'' 0, AddPlayer ''r1'' ''B'' ''bob'' 4,
      SetCurrentWord ''r1'' ''Apple '' ''A''] []),
      GuessResult True (Some ''bob'') (Some 10)) \<and>
   currentWord (roomOf (run [AddPlayer ''r1'' ''A'' ''alice'' 0, AddPlayer ''r1'' ''B'' ''bob'' 4,
      SetCurrentWord ''r1'' ''Apple '' ''A''] []) ''r1'') = Some ''Apple '' \<and>
   map_of (players (roomOf (run [AddPlayer ''r1'' ''A'' ''alice'' 0, AddPlayer ''r1'' ''B'' ''bob'' 4,
      SetCurrentWord ''r1'' ''Apple '' ''A''] []) ''r1'')) ''B'' =
     Some \<lparr>socketId = ''B'', name = ''bob'', score = 0\<rparr> \<and>
   correct (GuessResult True (Some ''bob'') (Some 10)) =
     (toLowerCaseAscii (trim ''Apple '') = toLowerCaseAscii (trim (''apple'' @ [CHR 0xE3, CHR 0x80, CHR 0x80]))) \<and>
   resultScore (GuessResult True (Some ''bob'') (Some 10)) =
     Some (score \<lparr>socketId = ''B'', name = ''bob'', score = 0\<rparr> + 10)"
proof -
  have h1: "checkGuess toLowerCaseAscii (run [AddPlayer ''r1'' ''A'' ''alice'' 0, AddPlayer ''r1'' ''B'' ''bob'' 4,
      SetCurrentWord ''r1'' ''Apple '' ''A''] []) ''r1'' ''B'' (''apple'' @ [CHR 0xE3, CHR 0x80, CHR 0x80]) =
     (AList.update ''r1''
        ((roomOf (run [AddPlayer ''r1'' ''A'' ''alice'' 0, AddPlayer ''r1'' ''B'' ''bob'' 4,
      SetCurrentWord ''r1'' ''Apple '' ''A''] []) ''r1'')
           \<lparr>players := [(''A'', \<lparr>socketId = ''A'', name = ''alice'', score = 0\<rparr>),
                        (''B'', \<lparr>socketId = ''B'', name = ''bob'', score = 10\<rparr>)]\<rparr>)
        (run [AddPlayer ''r1'' ''A'' ''alice'' 0, AddPlayer ''r1'' ''B'' ''bob'' 4,
      SetCurrentWord ''r1'' ''Apple '' ''A''] []),
      GuessResult True (Some ''bob'') (Some 10))"
    by code_simp
  have h2: "currentWord (roomOf (run [AddPlayer ''r1'' ''A'' ''alice'' 0, AddPlayer ''r1'' ''B'' ''bob'' 4,
      SetCurrentWord ''r1'' ''Apple '' ''A''] []) ''r1'') = Some ''Apple ''"
    by code_simp
  have h3: "map_of (players (roomOf (run [AddPlayer ''r1'' ''A'' ''alice'' 0, AddPlayer ''r1'' ''B'' ''bob'' 4,
      SetCurrentWord ''r1'' ''Apple '' ''A''] []) ''r1'')) ''B'' =
     Some \<lparr>socketId = ''B'', name = ''bob'', score = 0\<rparr>"
    by code_simp
  have h4: "''Apple '' \<noteq> []" by simp
  have h5: "correct (GuessResult True (Some ''bob'') (Some 10))" by simp
  note T = checkGuess_spec [OF h1]
  note b = conjunct1 [OF conjunct2 [OF T], rule_format, OF conjI [OF h2 h4]]
  note c = conjunct1 [OF conjunct2 [OF conjunct2 [OF T]], rule_format, OF conjI [OF h5 h3]]
  show ?thesis by (intro conjI h1 h2 h3 b conjunct1 [OF c])
qed

section \<open>Round-robin choice of the next presenter\<close>

lemma findIndex_bounds: "- 1 \<le> findIndex P xs \<and> findIndex P xs < int (length xs)"
  by (induction xs) (auto simp: Let_def)

lemma findIndex_none: "(\<forall>x \<in> set xs. \<not> P x) \<Longrightarrow> findIndex P xs = - 1"
  by (induction xs) (auto simp: Let_def)

lemma findIndex_first:
  "i < length xs \<Longrightarrow> P (xs ! i) \<Longrightarrow> (\<forall>j<i. \<not> P (xs ! j)) \<Longrightarrow> findIndex P xs = int i"
proof (induction xs arbitrary: i)
  case Nil
  then show ?case by simp
next
  case (Cons x xs)
  show ?case
  proof (cases i)
    case 0
    with Cons.prems show ?thesis by simp
  next
    case (Suc n)
    with Cons.prems have "n < length xs" and "P (xs ! n)" and "\<forall>j<n. \<not> P (xs ! j)"
      and "\<not> P x"
      by auto
    with Cons.IH [of n] have "findIndex P xs = int n" by simp
    with \<open>\<not> P x\<close> Suc show ?thesis by (simp add: Let_def)
  qed
qed

lemma smod_nonneg: "0 \<le> a \<Longrightarrow> 0 < b \<Longrightarrow> (a::int) smod b = a mod b"
  by (cases "a = 0") (simp_all add: signed_modulo_int_def)

lemma nextPresenterIndex_eq:
  "players room \<noteq> [] \<Longrightarrow>
   nextPresenterIndex room =
     (findIndex (\<lambda>p. Some (socketId p) = roundOwner room) (map snd (players room)) + 1)
       mod int (length (players room))"
  using findIndex_bounds [of "\<lambda>p. Some (socketId p) = roundOwner room" "map snd (players room)"]
  by (simp add: nextPresenterIndex_def Let_def smod_nonneg)

lemma nextPresenterIndex_in_range:
  "players room \<noteq> [] \<Longrightarrow>
   0 \<le> nextPresenterIndex room \<and> nextPresenterIndex room < int (length (players room))"
  by (simp add: nextPresenterIndex_eq)

lemma startNextRound_eq:
  "startNextRound rooms r rnd =
     (AList.update r (fst (startNextRoundIn (roomOf rooms r) rnd)) (fst (ensureRoom rooms r)),
      snd (startNextRoundIn (roomOf rooms r) rnd))"
  by (simp add: startNextRound_def split_beta snd_ensureRoom)

lemma startNextRoundIn_empty:
  "players room = [] \<Longrightarrow> startNextRoundIn room rnd = (room, None)"
  by (simp add: startNextRoundIn_def)

lemma startNextRoundIn_nonempty:
  "players room \<noteq> [] \<Longrightarrow>
   startNextRoundIn room rnd =
     (room\<lparr>roundOwner := Some (socketId (snd (players room ! nat (nextPresenterIndex room)))),
           currentWord := randomWord rnd, shapes := []\<rparr>,
      Some (snd (players room ! nat (nextPresenterIndex room)), randomWord rnd))"
proof -
  assume ne: "players room \<noteq> []"
  with nextPresenterIndex_in_range [of room]
  have "nat (nextPresenterIndex room) < length (players room)" by linarith
  then have "map snd (players room) ! nat (nextPresenterIndex room) =
      snd (players room ! nat (nextPresenterIndex room))"
    by (rule nth_map)
  with ne show ?thesis by (simp add: startNextRoundIn_def Let_def)
qed

lemma nextPresenterIndex_member:
  assumes "i < length (players room)"
    and "roundOwner room = Some (socketId (snd (players room ! i)))"
    and "\<forall>j<i. socketId (snd (players room ! j)) \<noteq> socketId (snd (players room ! i))"
  shows "nat (nextPresenterIndex room) = (i + 1) mod length (players room)"
proof -
  from assms(1) have ne: "players room \<noteq> []" by auto
  have "findIndex (\<lambda>p. Some (socketId p) = roundOwner room) (map snd (players room)) = int i"
    using assms by (intro findIndex_first) (auto simp: nth_map)
  with ne have "nextPresenterIndex room = (int i + 1) mod int (length (players room))"
    by (simp add: nextPresenterIndex_eq)
  also have "\<dots> = int ((i + 1) mod length (players room))"
    by (simp add: zmod_int add.commute)
  finally show ?thesis by simp
qed

lemma nextPresenterIndex_gone:
  assumes "players room \<noteq> []"
    and "\<forall>p \<in> set (map snd (players room)). Some (socketId p) \<noteq> roundOwner room"
  shows "nat (nextPresenterIndex room) = 0"
proof -
  have "findIndex (\<lambda>p. Some (socketId p) = roundOwner room) (map snd (players room)) = - 1"
    using assms(2) by (intro findIndex_none) auto
  with assms(1) show ?thesis by (simp add: nextPresenterIndex_eq)
qed

text \<open>
  Claim C3. \<open>startNextRound\<close> returns \<open>null\<close> exactly when the room has no player.
  Otherwise, with \<open>n\<close> players in the iteration order of the Map:
  \<^item> if the presenter is the player at index \<open>i\<close> (the first whose \<open>socketId\<close> is
    \<open>roundOwner\<close>), the next presenter is the player at index \<open>(i + 1) mod n\<close>;
  \<^item> if no player has the presenter's id, the next presenter is the player at index 0;
  \<^item> the player returned is the one whose id is stored in \<open>roundOwner\<close>.
  The instances of the claim (join order A, B, C: after B comes C, after C comes A;
  a presenter who has left is followed by the first player; a sole player follows
  themself) are evaluated in the witness.
\<close>

theorem startNextRound_round_robin:
  "(snd (startNextRound rooms roomId rnd) = None) = (players (roomOf rooms roomId) = []) \<and>
   (\<forall>i. i < length (players (roomOf rooms roomId)) \<and>
        roundOwner (roomOf rooms roomId) =
          Some (socketId (snd (players (roomOf rooms roomId) ! i))) \<and>
        (\<forall>j<i. socketId (snd (players (roomOf rooms roomId) ! j)) \<noteq>
               socketId (snd (players (roomOf rooms roomId) ! i))) \<longrightarrow>
        snd (startNextRound rooms roomId rnd) =
          Some (snd (players (roomOf rooms roomId) !
                       ((i + 1) mod length (players (roomOf rooms roomId)))),
                randomWord rnd)) \<and>
   (players (roomOf rooms roomId) \<noteq> [] \<and>
    (\<forall>p \<in> set (map snd (players (roomOf rooms roomId))).
        Some (socketId p) \<noteq> roundOwner (roomOf rooms roomId)) \<longrightarrow>
        snd (startNextRound rooms roomId rnd) =
          Some (snd (players (roomOf rooms roomId) ! 0), randomWord rnd)) \<and>
   (\<forall>p w. snd (startNextRound rooms roomId rnd) = Some (p, w) \<longrightarrow>
        roundOwner (roomOf (fst (startNextRound rooms roomId rnd)) roomId) =
          Some (socketId p))"
proof -
  let ?room = "roomOf rooms roomId"
  have a: "(snd (startNextRound rooms roomId rnd) = None) = (players ?room = [])"
    by (cases "players ?room = []")
       (simp_all add: startNextRound_eq startNextRoundIn_empty startNextRoundIn_nonempty)
  have b: "\<forall>i. i < length (players ?room) \<and>
        roundOwner ?room = Some (socketId (snd (players ?room ! i))) \<and>
        (\<forall>j<i. socketId (snd (players ?room ! j)) \<noteq> socketId (snd (players ?room ! i))) \<longrightarrow>
        snd (startNextRound rooms roomId rnd) =
          Some (snd (players ?room ! ((i + 1) mod length (players ?room))), randomWord rnd)"
  proof (intro allI impI)
    fix i
    assume h: "i < length (players ?room) \<and>
        roundOwner ?room = Some (socketId (snd (players ?room ! i))) \<and>
        (\<forall>j<i. socketId (snd (players ?room ! j)) \<noteq> socketId (snd (players ?room ! i)))"
    then have "players ?room \<noteq> []" by auto
    moreover from h have "nat (nextPresenterIndex ?room) = (i + 1) mod length (players ?room)"
      by (intro nextPresenterIndex_member) simp_all
    ultimately show "snd (startNextRound rooms roomId rnd) =
          Some (snd (players ?room ! ((i + 1) mod length (players ?room))), randomWord rnd)"
      by (simp add: startNextRound_eq startNextRoundIn_nonempty)
  qed
  have c: "players ?room \<noteq> [] \<and>
    (\<forall>p \<in> set (map snd (players ?room)). Some (socketId p) \<noteq> roundOwner ?room) \<longrightarrow>
        snd (startNextRound rooms roomId rnd) = Some (snd (players ?room ! 0), randomWord rnd)"
  proof
    assume h: "players ?room \<noteq> [] \<and>
      (\<forall>p \<in> set (map snd (players ?room)). Some (socketId p) \<noteq> roundOwner ?room)"
    then have "nat (nextPresenterIndex ?room) = 0"
      by (intro nextPresenterIndex_gone) simp_all
    with h show "snd (startNextRound rooms roomId rnd) =
        Some (snd (players ?room ! 0), randomWord rnd)"
      by (simp add: startNextRound_eq startNextRoundIn_nonempty)
  qed
  have d: "\<forall>p w. snd (startNextRound rooms roomId rnd) = Some (p, w) \<longrightarrow>
        roundOwner (roomOf (fst (startNextRound rooms roomId rnd)) roomId) = Some (socketId p)"
    by (cases "players ?room = []")
       (auto simp: startNextRound_eq startNextRoundIn_empty startNextRoundIn_nonempty
          roomOf_write_back)
  from a b c d show ?thesis by blast
qed

theorem startNextRound_round_robin_witness:
  "snd (startNextRound (run [AddPlayer ''r1'' ''A'' ''alice'' 0, AddPlayer ''r1'' ''B'' ''bob'' 0,
      AddPlayer ''r1'' ''C'' ''carol'' 0, StartNextRound ''r1'' 1] []) ''r1'' 2) =
     Some (\<lparr>socketId = ''C'', name = ''carol'', score = 0\<rparr>, randomWord 2) \<and>
   snd (startNextRound (run [AddPlayer ''r1'' ''A'' ''alice'' 0, AddPlayer ''r1'' ''B'' ''bob'' 0,
      AddPlayer ''r1'' ''C'' ''carol'' 0, StartNextRound ''r1'' 1,
      StartNextRound ''r1'' 5] []) ''r1'' 2) =
     Some (\<lparr>socketId = ''A'', name = ''alice'', score = 0\<rparr>, randomWord 2) \<and>
   snd (startNextRound (run [AddPlayer ''r1'' ''A'' ''alice'' 0, AddPlayer ''r1'' ''B'' ''bob'' 0,
      AddPlayer ''r1'' ''C'' ''carol'' 0, RemovePlayerFromAll ''A''] []) ''r1'' 2) =
     Some (\<lparr>socketId = ''B'', name = ''bob'', score = 0\<rparr>, randomWord 2) \<and>
   snd (startNextRound (run [AddPlayer ''r1'' ''A'' ''alice'' 0] []) ''r1'' 2) =
     Some (\<lparr>socketId = ''A'', name = ''alice'', score = 0\<rparr>, randomWord 2) \<and>
   snd (startNextRound [] ''r1'' 2) = None"
proof -
  have pB: "players (roomOf (run [AddPlayer ''r1'' ''A'' ''alice'' 0, AddPlayer ''r1'' ''B'' ''bob'' 0,
      AddPlayer ''r1'' ''C'' ''carol'' 0, StartNextRound ''r1'' 1] []) ''r1'') =
      [(''A'', \<lparr>socketId = ''A'', name = ''alice'', score = 0\<rparr>), (''B'', \<lparr>socketId = ''B'', name = ''bob'', score = 0\<rparr>), (''C'', \<lparr>socketId = ''C'', name = ''carol'', score = 0\<rparr>)]"
    by code_simp
  have oB: "roundOwner (roomOf (run [AddPlayer ''r1'' ''A'' ''alice'' 0, AddPlayer ''r1'' ''B'' ''bob'' 0,
      AddPlayer ''r1'' ''C'' ''carol'' 0, StartNextRound ''r1'' 1] []) ''r1'') = Some ''B''"
    by code_simp
  have pC: "players (roomOf (run [AddPlayer ''r1'' ''A'' ''alice'' 0, AddPlayer ''r1'' ''B'' ''bob'' 0,
      AddPlayer ''r1'' ''C'' ''carol'' 0, StartNextRound ''r1'' 1,
      StartNextRound ''r1'' 5] []) ''r1'') =
      [(''A'', \<lparr>socketId = ''A'', name = ''alice'', score = 0\<rparr>), (''B'', \<lparr>socketId = ''B'', name = ''bob'', score = 0\<rparr>), (''C'', \<lparr>socketId = ''C'', name = ''carol'', score = 0\<rparr>)]"
    by code_simp
  have oC: "roundOwner (roomOf (run [AddPlayer ''r1'' ''A'' ''alice'' 0, AddPlayer ''r1'' ''B'' ''bob'' 0,
      AddPlayer ''r1'' ''C'' ''carol'' 0, StartNextRound ''r1'' 1,
      StartNextRound ''r1'' 5] []) ''r1'') = Some ''C''"
    by code_simp
  have pG: "players (roomOf (run [AddPlayer ''r1'' ''A'' ''alice'' 0, AddPlayer ''r1'' ''B'' ''bob'' 0,
      AddPlayer ''r1'' ''C'' ''carol'' 0, RemovePlayerFromAll ''A''] []) ''r1'') =
      [(''B'', \<lparr>socketId = ''B'', name = ''bob'', score = 0\<rparr>), (''C'', \<lparr>socketId = ''C'', name = ''carol'', score = 0\<rparr>)]"
    by code_simp
  have oG: "roundOwner (roomOf (run [AddPlayer ''r1'' ''A'' ''alice'' 0, AddPlayer ''r1'' ''B'' ''bob'' 0,
      AddPlayer ''r1'' ''C'' ''carol'' 0, RemovePlayerFromAll ''A''] []) ''r1'') = Some ''A''"
    by code_simp
  have p1: "players (roomOf (run [AddPlayer ''r1'' ''A'' ''alice'' 0] []) ''r1'') = [(''A'', \<lparr>socketId = ''A'', name = ''alice'', score = 0\<rparr>)]"
    by code_simp
  have o1: "roundOwner (roomOf (run [AddPlayer ''r1'' ''A'' ''alice'' 0] []) ''r1'') = Some ''A''"
    by code_simp
  have p0: "players (roomOf [] ''r1'') = []"
    by code_simp
  have a: "snd (startNextRound (run [AddPlayer ''r1'' ''A'' ''alice'' 0, AddPlayer ''r1'' ''B'' ''bob'' 0,
      AddPlayer ''r1'' ''C'' ''carol'' 0, StartNextRound ''r1'' 1] []) ''r1'' 2) =
     Some (\<lparr>socketId = ''C'', name = ''carol'', score = 0\<rparr>, randomWord 2)"
    using startNextRound_round_robin [of "(run [AddPlayer ''r1'' ''A'' ''alice'' 0, AddPlayer ''r1'' ''B'' ''bob'' 0,
      AddPlayer ''r1'' ''C'' ''carol'' 0, StartNextRound ''r1'' 1] [])" "''r1''" 2] pB oB
    by (elim conjE allE [of _ 1]) (simp add: less_Suc_eq)
  have b: "snd (startNextRound (run [AddPlayer ''r1'' ''A'' ''alice'' 0, AddPlayer ''r1'' ''B'' ''bob'' 0,
      AddPlayer ''r1'' ''C'' ''carol'' 0, StartNextRound ''r1'' 1,
      StartNextRound ''r1'' 5] []) ''r1'' 2) =
     Some (\<lparr>socketId = ''A'', name = ''alice'', score = 0\<rparr>, randomWord 2)"
    using startNextRound_round_robin [of "(run [AddPlayer ''r1'' ''A'' ''alice'' 0, AddPlayer ''r1'' ''B'' ''bob'' 0,
      AddPlayer ''r1'' ''C'' ''carol'' 0, StartNextRound ''r1'' 1,
      StartNextRound ''r1'' 5] [])" "''r1''" 2] pC oC
    by (elim conjE allE [of _ 2]) (simp add: less_Suc_eq numeral_2_eq_2)
  have c: "snd (startNextRound (run [AddPlayer ''r1'' ''A'' ''alice'' 0, AddPlayer ''r1'' ''B'' ''bob'' 0,
      AddPlayer ''r1'' ''C'' ''carol'' 0, RemovePlayerFromAll ''A''] []) ''r1'' 2) =
     Some (\<lparr>socketId = ''B'', name = ''bob'', score = 0\<rparr>, randomWord 2)"
    using startNextRound_round_robin [of "(run [AddPlayer ''r1'' ''A'' ''alice'' 0, AddPlayer ''r1'' ''B'' ''bob'' 0,
      AddPlayer ''r1'' ''C'' ''carol'' 0, RemovePlayerFromAll ''A''] [])" "''r1''" 2] pG oG
    by simp
  have d: "snd (startNextRound (run [AddPlayer ''r1'' ''A'' ''alice'' 0] []) ''r1'' 2) =
     Some (\<lparr>socketId = ''A'', name = ''alice'', score = 0\<rparr>, randomWord 2)"
    using startNextRound_round_robin [of "(run [AddPlayer ''r1'' ''A'' ''alice'' 0] [])" "''r1''" 2] p1 o1
    by (elim conjE allE [of _ 0]) simp
  have e: "snd (startNextRound [] ''r1'' 2) = None"
    using startNextRound_round_robin [of "[]" "''r1''" 2] p0 by simp
  from a b c d e show ?thesis by blast
qed

section \<open>The stroke log\<close>

lemma shapes_roomStep:
  "shapes (roomStep op k room) =
     (case op of
        StartNextRound roomId rnd \<Rightarrow>
          if k = roomId \<and> players room \<noteq> [] then [] else shapes room
      | AppendShape roomId shape \<Rightarrow>
          if k = roomId then shapes room @ [shape] else shapes room
      | _ \<Rightarrow> shapes room)"
  by (cases op)
     (simp_all add: addPlayerIn_def Let_def removePlayerIn_def appendShapeIn_def
        setCurrentWordIn_def checkGuessIn_def startNextRoundIn_def split: option.splits)

lemma startNextRound_None_iff:
  "(snd (startNextRound rooms roomId rnd) = None) = (players (roomOf rooms roomId) = [])"
  by (cases "players (roomOf rooms roomId) = []")
     (simp_all add: startNextRound_eq startNextRoundIn_empty startNextRoundIn_nonempty)

text \<open>
  Claim C8. For every call and every room id, the stroke log of the room after the call
  is: empty, if the call is \<open>startNextRound\<close> on that room and does not return \<open>null\<close>;
  the old log with the one shape added at the end, if the call is \<open>appendShape\<close> on that
  room; the old log otherwise (\<open>ensureRoom\<close>, \<open>addPlayer\<close>, \<open>removePlayerFromAll\<close>,
  \<open>getRoomState\<close>, \<open>getCurrentWord\<close>, \<open>setCurrentWord\<close>, \<open>checkGuess\<close>, and any call on
  another room). The snapshot of \<open>getRoomState\<close> carries the log as it is. So a log
  that was not empty is empty after a call only if the call is a \<open>startNextRound\<close> on
  that room that did not return \<open>null\<close>.
\<close>

theorem strokes_cleared_only_at_round_start:
  "shapes (roomOf (exec op rooms) k) =
     (case op of
        StartNextRound roomId rnd \<Rightarrow>
          if k = roomId \<and> snd (startNextRound rooms roomId rnd) \<noteq> None then []
          else shapes (roomOf rooms k)
      | AppendShape roomId shape \<Rightarrow>
          if k = roomId then shapes (roomOf rooms k) @ [shape] else shapes (roomOf rooms k)
      | _ \<Rightarrow> shapes (roomOf rooms k)) \<and>
   st_shapes (snd (getRoomState rooms k)) = shapes (roomOf rooms k) \<and>
   (shapes (roomOf rooms k) \<noteq> [] \<and> shapes (roomOf (exec op rooms) k) = [] \<longrightarrow>
      (\<exists>rnd. op = StartNextRound k rnd \<and> snd (startNextRound rooms k rnd) \<noteq> None))"
proof -
  have a: "shapes (roomOf (exec op rooms) k) =
     (case op of
        StartNextRound roomId rnd \<Rightarrow>
          if k = roomId \<and> snd (startNextRound rooms roomId rnd) \<noteq> None then []
          else shapes (roomOf rooms k)
      | AppendShape roomId shape \<Rightarrow>
          if k = roomId then shapes (roomOf rooms k) @ [shape] else shapes (roomOf rooms k)
      | _ \<Rightarrow> shapes (roomOf rooms k))"
    unfolding roomOf_exec shapes_roomStep
    by (cases op) (auto simp: startNextRound_None_iff)
  have b: "st_shapes (snd (getRoomState rooms k)) = shapes (roomOf rooms k)"
    by (simp add: getRoomState_def split_beta snd_ensureRoom getRoomStateIn_def)
  have c: "shapes (roomOf rooms k) \<noteq> [] \<and> shapes (roomOf (exec op rooms) k) = [] \<longrightarrow>
      (\<exists>rnd. op = StartNextRound k rnd \<and> snd (startNextRound rooms k rnd) \<noteq> None)"
    unfolding a by (cases op) (auto split: if_splits)
  from a b c show ?thesis by blast
qed

theorem strokes_cleared_only_at_round_start_witness:
  "shapes (roomOf (run [AddPlayer ''r1'' ''A'' ''alice'' 0,
      AppendShape ''r1'' (JObj [(''x'', JNum 1)])] []) ''r1'') = [JObj [(''x'', JNum 1)]] \<and>
   shapes (roomOf (exec (StartNextRound ''r1'' 2) (run [AddPlayer ''r1'' ''A'' ''alice'' 0,
      AppendShape ''r1'' (JObj [(''x'', JNum 1)])] [])) ''r1'') = [] \<and>
   snd (startNextRound (run [AddPlayer ''r1'' ''A'' ''alice'' 0,
      AppendShape ''r1'' (JObj [(''x'', JNum 1)])] []) ''r1'' 2) \<noteq> None \<and>
   shapes (roomOf (exec (AppendShape ''r1'' (JObj [(''x'', JNum 2)])) (run [AddPlayer ''r1'' ''A'' ''alice'' 0,
      AppendShape ''r1'' (JObj [(''x'', JNum 1)])] [])) ''r1'') =
     [JObj [(''x'', JNum 1)], JObj [(''x'', JNum 2)]] \<and>
   shapes (roomOf (exec (RemovePlayerFromAll ''A'') (run [AddPlayer ''r1'' ''A'' ''alice'' 0,
      AppendShape ''r1'' (JObj [(''x'', JNum 1)])] [])) ''r1'') = [JObj [(''x'', JNum 1)]]"
proof -
  have h1: "shapes (roomOf (run [AddPlayer ''r1'' ''A'' ''alice'' 0,
      AppendShape ''r1'' (JObj [(''x'', JNum 1)])] []) ''r1'') = [JObj [(''x'', JNum 1)]]"
    by code_simp
  have h2: "shapes (roomOf (exec (StartNextRound ''r1'' 2) (run [AddPlayer ''r1'' ''A'' ''alice'' 0,
      AppendShape ''r1'' (JObj [(''x'', JNum 1)])] [])) ''r1'') = []"
    by code_simp
  have a: "snd (startNextRound (run [AddPlayer ''r1'' ''A'' ''alice'' 0,
      AppendShape ''r1'' (JObj [(''x'', JNum 1)])] []) ''r1'' 2) \<noteq> None"
  proof -
    note T = strokes_cleared_only_at_round_start
        [of "StartNextRound ''r1'' 2" "(run [AddPlayer ''r1'' ''A'' ''alice'' 0,
      AppendShape ''r1'' (JObj [(''x'', JNum 1)])] [])" "''r1''"]
    from T have imp: "shapes (roomOf (run [AddPlayer ''r1'' ''A'' ''alice'' 0,
      AppendShape ''r1'' (JObj [(''x'', JNum 1)])] []) ''r1'') \<noteq> [] \<and>
        shapes (roomOf (exec (StartNextRound ''r1'' 2) (run [AddPlayer ''r1'' ''A'' ''alice'' 0,
      AppendShape ''r1'' (JObj [(''x'', JNum 1)])] [])) ''r1'') = [] \<longrightarrow>
        (\<exists>rnd. StartNextRound ''r1'' 2 = StartNextRound ''r1'' rnd \<and>
           snd (startNextRound (run [AddPlayer ''r1'' ''A'' ''alice'' 0,
      AppendShape ''r1'' (JObj [(''x'', JNum 1)])] []) ''r1'' rnd) \<noteq> None)"
      by (rule conjunct2 [THEN conjunct2])
    have pre: "shapes (roomOf (run [AddPlayer ''r1'' ''A'' ''alice'' 0,
      AppendShape ''r1'' (JObj [(''x'', JNum 1)])] []) ''r1'') \<noteq> [] \<and>
        shapes (roomOf (exec (StartNextRound ''r1'' 2) (run [AddPlayer ''r1'' ''A'' ''alice'' 0,
      AppendShape ''r1'' (JObj [(''x'', JNum 1)])] [])) ''r1'') = []"
      unfolding h1 h2 by simp
    from mp [OF imp pre] obtain rnd where eq: "StartNextRound ''r1'' 2 = StartNextRound ''r1'' rnd"
      and ne: "snd (startNextRound (run [AddPlayer ''r1'' ''A'' ''alice'' 0,
      AppendShape ''r1'' (JObj [(''x'', JNum 1)])] []) ''r1'' rnd) \<noteq> None"
      by (elim exE conjE)
    from eq have r: "rnd = 2" by (simp only: op.inject)
    from ne show ?thesis unfolding r .
  qed
  have b: "shapes (roomOf (exec (AppendShape ''r1'' (JObj [(''x'', JNum 2)])) (run [AddPlayer ''r1'' ''A'' ''alice'' 0,
      AppendShape ''r1'' (JObj [(''x'', JNum 1)])] [])) ''r1'') =
     [JObj [(''x'', JNum 1)], JObj [(''x'', JNum 2)]]"
  proof -
    note T = strokes_cleared_only_at_round_start
        [of "AppendShape ''r1'' (JObj [(''x'', JNum 2)])" "(run [AddPlayer ''r1'' ''A'' ''alice'' 0,
      AppendShape ''r1'' (JObj [(''x'', JNum 1)])] [])" "''r1''"]
    from T have "shapes (roomOf (exec (AppendShape ''r1'' (JObj [(''x'', JNum 2)])) (run [AddPlayer ''r1'' ''A'' ''alice'' 0,
      AppendShape ''r1'' (JObj [(''x'', JNum 1)])] [])) ''r1'') =
        shapes (roomOf (run [AddPlayer ''r1'' ''A'' ''alice'' 0,
      AppendShape ''r1'' (JObj [(''x'', JNum 1)])] []) ''r1'') @ [JObj [(''x'', JNum 2)]]"
      by (simp only: op.case if_True simp_thms)
    then show ?thesis by (simp only: h1 append.simps)
  qed
  have c: "shapes (roomOf (exec (RemovePlayerFromAll ''A'') (run [AddPlayer ''r1'' ''A'' ''alice'' 0,
      AppendShape ''r1'' (JObj [(''x'', JNum 1)])] [])) ''r1'') =
     [JObj [(''x'', JNum 1)]]"
  proof -
    note T = strokes_cleared_only_at_round_start
        [of "RemovePlayerFromAll ''A''" "(run [AddPlayer ''r1'' ''A'' ''alice'' 0,
      AppendShape ''r1'' (JObj [(''x'', JNum 1)])] [])" "''r1''"]
    from T have "shapes (roomOf (exec (RemovePlayerFromAll ''A'') (run [AddPlayer ''r1'' ''A'' ''alice'' 0,
      AppendShape ''r1'' (JObj [(''x'', JNum 1)])] [])) ''r1'') =
        shapes (roomOf (run [AddPlayer ''r1'' ''A'' ''alice'' 0,
      AppendShape ''r1'' (JObj [(''x'', JNum 1)])] []) ''r1'')"
      by (simp only: op.case)
    then show ?thesis by (simp only: h1)
  qed
  show ?thesis by (intro conjI h1 h2 a b c)
qed

section \<open>Only the presenter draws\<close>

lemma getRoomState_eq:
  "getRoomState rooms r = (fst (ensureRoom rooms r), getRoomStateIn (roomOf rooms r))"
  by (simp add: getRoomState_def split_beta snd_ensureRoom)

lemma getCurrentWord_eq: "getCurrentWord rooms r = currentWord (roomOf rooms r)"
  by (simp add: getCurrentWord_def roomOf_eq newRoom_def split: option.splits)

lemma appendShape_eq:
  "appendShape rooms r x =
     AList.update r (appendShapeIn (roomOf rooms r) x) (fst (ensureRoom rooms r))"
  by (simp add: appendShape_def split_beta snd_ensureRoom)

lemma ensureRoom_keeps: "map_of rooms k = Some room \<Longrightarrow> map_of (fst (ensureRoom rooms r)) k = Some room"
  by (auto simp: map_of_ensureRoom roomOf_eq)

lemma ensureRoom_present: "map_of rooms r \<noteq> None \<Longrightarrow> fst (ensureRoom rooms r) = rooms"
  by (auto simp: ensureRoom_def)

text \<open>
  Claim C7. Let the payload of a draw event pass validation. If the id of the connection
  is not \<open>roundOwner\<close> of the room (which includes a room without presenter), \<open>onDraw\<close>
  returns normally, emits nothing and logs one warning; the registry it leaves is the
  one \<open>ensureRoom\<close> returns inside \<open>getRoomState\<close>: every room that existed is unchanged,
  the room handed out for every id is the same as before (in particular its stroke
  log), and the registry is identical when the room existed. If the id of the
  connection is \<open>roundOwner\<close>, the drawing record is relayed to the room without the
  sender, the room is the old room with this one record added at the end of its stroke
  log, and every other room is as it was.
\<close>

theorem onDraw_presenter_gate:
  assumes "validateDto payload = Inr dto"
  shows
   "(Some clientId \<noteq> roundOwner (roomOf rooms (draw_roomId dto)) \<longrightarrow>
       onDraw validateDto rooms clientId payload =
         Inr \<lparr>rooms_after = fst (ensureRoom rooms (draw_roomId dto)),
              emitted = [],
              logged = [''Client '' @ clientId @ '' tried to draw but is not the presenter.'']\<rparr> \<and>
       (\<forall>k. roomOf (fst (ensureRoom rooms (draw_roomId dto))) k = roomOf rooms k) \<and>
       (\<forall>k room. map_of rooms k = Some room \<longrightarrow>
          map_of (fst (ensureRoom rooms (draw_roomId dto))) k = Some room) \<and>
       (map_of rooms (draw_roomId dto) \<noteq> None \<longrightarrow>
          fst (ensureRoom rooms (draw_roomId dto)) = rooms)) \<and>
    (Some clientId = roundOwner (roomOf rooms (draw_roomId dto)) \<longrightarrow>
       (\<exists>rooms'.
          onDraw validateDto rooms clientId payload =
            Inr \<lparr>rooms_after = rooms',
                 emitted = [(RoomExceptSender (draw_roomId dto) clientId,
                               DrawingRemote clientId (draw_data dto))],
                 logged = []\<rparr> \<and>
          roomOf rooms' (draw_roomId dto) =
            (roomOf rooms (draw_roomId dto))
              \<lparr>shapes := shapes (roomOf rooms (draw_roomId dto)) @ [draw_data dto]\<rparr> \<and>
          (\<forall>k. k \<noteq> draw_roomId dto \<longrightarrow> roomOf rooms' k = roomOf rooms k)))"
proof -
  let ?r = "draw_roomId dto"
  have a: "Some clientId \<noteq> roundOwner (roomOf rooms ?r) \<longrightarrow>
       onDraw validateDto rooms clientId payload =
         Inr \<lparr>rooms_after = fst (ensureRoom rooms ?r), emitted = [],
              logged = [''Client '' @ clientId @ '' tried to draw but is not the presenter.'']\<rparr>"
    using assms by (simp add: onDraw_def getRoomState_eq getRoomStateIn_def)
  have b: "\<forall>k. roomOf (fst (ensureRoom rooms ?r)) k = roomOf rooms k"
    by (simp add: roomOf_ensureRoom)
  have c: "\<forall>k room. map_of rooms k = Some room \<longrightarrow>
          map_of (fst (ensureRoom rooms ?r)) k = Some room"
    by (simp add: ensureRoom_keeps)
  have d: "map_of rooms ?r \<noteq> None \<longrightarrow> fst (ensureRoom rooms ?r) = rooms"
    by (simp add: ensureRoom_present)
  have e: "Some clientId = roundOwner (roomOf rooms ?r) \<longrightarrow>
       (\<exists>rooms'.
          onDraw validateDto rooms clientId payload =
            Inr \<lparr>rooms_after = rooms',
                 emitted = [(RoomExceptSender ?r clientId, DrawingRemote clientId (draw_data dto))],
                 logged = []\<rparr> \<and>
          roomOf rooms' ?r = (roomOf rooms ?r)\<lparr>shapes := shapes (roomOf rooms ?r) @ [draw_data dto]\<rparr> \<and>
          (\<forall>k. k \<noteq> ?r \<longrightarrow> roomOf rooms' k = roomOf rooms k))"
  proof
    assume p: "Some clientId = roundOwner (roomOf rooms ?r)"
    let ?rooms' = "appendShape (fst (ensureRoom rooms ?r)) ?r (draw_data dto)"
    from p assms have "onDraw validateDto rooms clientId payload =
            Inr \<lparr>rooms_after = ?rooms',
                 emitted = [(RoomExceptSender ?r clientId, DrawingRemote clientId (draw_data dto))],
                 logged = []\<rparr>"
      by (simp add: onDraw_def getRoomState_eq getRoomStateIn_def)
    moreover have "roomOf ?rooms' ?r =
        (roomOf rooms ?r)\<lparr>shapes := shapes (roomOf rooms ?r) @ [draw_data dto]\<rparr>"
      by (simp add: appendShape_eq roomOf_write_back roomOf_ensureRoom appendShapeIn_def)
    moreover have "\<forall>k. k \<noteq> ?r \<longrightarrow> roomOf ?rooms' k = roomOf rooms k"
      by (simp add: appendShape_eq roomOf_write_back roomOf_ensureRoom)
    ultimately show "\<exists>rooms'.
          onDraw validateDto rooms clientId payload =
            Inr \<lparr>rooms_after = rooms',
                 emitted = [(RoomExceptSender ?r clientId, DrawingRemote clientId (draw_data dto))],
                 logged = []\<rparr> \<and>
          roomOf rooms' ?r = (roomOf rooms ?r)\<lparr>shapes := shapes (roomOf rooms ?r) @ [draw_data dto]\<rparr> \<and>
          (\<forall>k. k \<noteq> ?r \<longrightarrow> roomOf rooms' k = roomOf rooms k)"
      by blast
  qed
  from a b c d e show ?thesis by blast
qed

theorem onDraw_presenter_gate_witness:
  "validateDrawDto (JObj [(''roomId'', JStr ''r1''), (''data'', JObj [(''x'', JNum 1)])]) = Inr \<lparr>draw_roomId = ''r1'', draw_data = JObj [(''x'', JNum 1)]\<rparr> \<and>
   Some ''B'' \<noteq> roundOwner (roomOf (run [AddPlayer ''r1'' ''A'' ''alice'' 0, AddPlayer ''r1'' ''B'' ''bob'' 0] []) (draw_roomId \<lparr>draw_roomId = ''r1'', draw_data = JObj [(''x'', JNum 1)]\<rparr>)) \<and>
   onDraw validateDrawDto (run [AddPlayer ''r1'' ''A'' ''alice'' 0, AddPlayer ''r1'' ''B'' ''bob'' 0] []) ''B'' (JObj [(''roomId'', JStr ''r1''), (''data'', JObj [(''x'', JNum 1)])]) =
     Inr \<lparr>rooms_after = fst (ensureRoom (run [AddPlayer ''r1'' ''A'' ''alice'' 0, AddPlayer ''r1'' ''B'' ''bob'' 0] []) (draw_roomId \<lparr>draw_roomId = ''r1'', draw_data = JObj [(''x'', JNum 1)]\<rparr>)),
          emitted = [],
          logged = [''Client '' @ ''B'' @ '' tried to draw but is not the presenter.'']\<rparr> \<and>
   fst (ensureRoom (run [AddPlayer ''r1'' ''A'' ''alice'' 0, AddPlayer ''r1'' ''B'' ''bob'' 0] []) (draw_roomId \<lparr>draw_roomId = ''r1'', draw_data = JObj [(''x'', JNum 1)]\<rparr>)) = (run [AddPlayer ''r1'' ''A'' ''alice'' 0, AddPlayer ''r1'' ''B'' ''bob'' 0] []) \<and>
   Some ''A'' = roundOwner (roomOf (run [AddPlayer ''r1'' ''A'' ''alice'' 0, AddPlayer ''r1'' ''B'' ''bob'' 0] []) (draw_roomId \<lparr>draw_roomId = ''r1'', draw_data = JObj [(''x'', JNum 1)]\<rparr>)) \<and>
   (\<exists>rooms'.
      onDraw validateDrawDto (run [AddPlayer ''r1'' ''A'' ''alice'' 0, AddPlayer ''r1'' ''B'' ''bob'' 0] []) ''A'' (JObj [(''roomId'', JStr ''r1''), (''data'', JObj [(''x'', JNum 1)])]) =
        Inr \<lparr>rooms_after = rooms',
             emitted = [(RoomExceptSender (draw_roomId \<lparr>draw_roomId = ''r1'', draw_data = JObj [(''x'', JNum 1)]\<rparr>) ''A'',
                           DrawingRemote ''A'' (draw_data \<lparr>draw_roomId = ''r1'', draw_data = JObj [(''x'', JNum 1)]\<rparr>))],
             logged = []\<rparr> \<and>
      roomOf rooms' (draw_roomId \<lparr>draw_roomId = ''r1'', draw_data = JObj [(''x'', JNum 1)]\<rparr>) =
        (roomOf (run [AddPlayer ''r1'' ''A'' ''alice'' 0, AddPlayer ''r1'' ''B'' ''bob'' 0] []) (draw_roomId \<lparr>draw_roomId = ''r1'', draw_data = JObj [(''x'', JNum 1)]\<rparr>))
          \<lparr>shapes := shapes (roomOf (run [AddPlayer ''r1'' ''A'' ''alice'' 0, AddPlayer ''r1'' ''B'' ''bob'' 0] []) (draw_roomId \<lparr>draw_roomId = ''r1'', draw_data = JObj [(''x'', JNum 1)]\<rparr>)) @ [draw_data \<lparr>draw_roomId = ''r1'', draw_data = JObj [(''x'', JNum 1)]\<rparr>]\<rparr> \<and>
      (\<forall>k. k \<noteq> draw_roomId \<lparr>draw_roomId = ''r1'', draw_data = JObj [(''x'', JNum 1)]\<rparr> \<longrightarrow> roomOf rooms' k = roomOf (run [AddPlayer ''r1'' ''A'' ''alice'' 0, AddPlayer ''r1'' ''B'' ''bob'' 0] []) k))"
proof -
  have v: "validateDrawDto (JObj [(''roomId'', JStr ''r1''), (''data'', JObj [(''x'', JNum 1)])]) = Inr \<lparr>draw_roomId = ''r1'', draw_data = JObj [(''x'', JNum 1)]\<rparr>"
    by code_simp
  have np: "Some ''B'' \<noteq> roundOwner (roomOf (run [AddPlayer ''r1'' ''A'' ''alice'' 0, AddPlayer ''r1'' ''B'' ''bob'' 0] []) (draw_roomId \<lparr>draw_roomId = ''r1'', draw_data = JObj [(''x'', JNum 1)]\<rparr>))"
    by code_simp
  have pr: "Some ''A'' = roundOwner (roomOf (run [AddPlayer ''r1'' ''A'' ''alice'' 0, AddPlayer ''r1'' ''B'' ''bob'' 0] []) (draw_roomId \<lparr>draw_roomId = ''r1'', draw_data = JObj [(''x'', JNum 1)]\<rparr>))"
    by code_simp
  have ex: "map_of (run [AddPlayer ''r1'' ''A'' ''alice'' 0, AddPlayer ''r1'' ''B'' ''bob'' 0] []) (draw_roomId \<lparr>draw_roomId = ''r1'', draw_data = JObj [(''x'', JNum 1)]\<rparr>) \<noteq> None"
    by code_simp
  note B = onDraw_presenter_gate [where validateDto = validateDrawDto
      and payload = "(JObj [(''roomId'', JStr ''r1''), (''data'', JObj [(''x'', JNum 1)])])"
      and dto = "\<lparr>draw_roomId = ''r1'', draw_data = JObj [(''x'', JNum 1)]\<rparr>"
      and clientId = "''B''" and rooms = "(run [AddPlayer ''r1'' ''A'' ''alice'' 0, AddPlayer ''r1'' ''B'' ''bob'' 0] [])", OF v]
  note A = onDraw_presenter_gate [where validateDto = validateDrawDto
      and payload = "(JObj [(''roomId'', JStr ''r1''), (''data'', JObj [(''x'', JNum 1)])])"
      and dto = "\<lparr>draw_roomId = ''r1'', draw_data = JObj [(''x'', JNum 1)]\<rparr>"
      and clientId = "''A''" and rooms = "(run [AddPlayer ''r1'' ''A'' ''alice'' 0, AddPlayer ''r1'' ''B'' ''bob'' 0] [])", OF v]
  note nb = mp [OF conjunct1 [OF B] np]
  have b1: "onDraw validateDrawDto (run [AddPlayer ''r1'' ''A'' ''alice'' 0, AddPlayer ''r1'' ''B'' ''bob'' 0] []) ''B'' (JObj [(''roomId'', JStr ''r1''), (''data'', JObj [(''x'', JNum 1)])]) =
     Inr \<lparr>rooms_after = fst (ensureRoom (run [AddPlayer ''r1'' ''A'' ''alice'' 0, AddPlayer ''r1'' ''B'' ''bob'' 0] []) (draw_roomId \<lparr>draw_roomId = ''r1'', draw_data = JObj [(''x'', JNum 1)]\<rparr>)),
          emitted = [],
          logged = [''Client '' @ ''B'' @ '' tried to draw but is not the presenter.'']\<rparr>"
    by (rule conjunct1 [OF nb])
  have b2: "fst (ensureRoom (run [AddPlayer ''r1'' ''A'' ''alice'' 0, AddPlayer ''r1'' ''B'' ''bob'' 0] []) (draw_roomId \<lparr>draw_roomId = ''r1'', draw_data = JObj [(''x'', JNum 1)]\<rparr>)) = (run [AddPlayer ''r1'' ''A'' ''alice'' 0, AddPlayer ''r1'' ''B'' ''bob'' 0] [])"
    by (rule mp [OF conjunct2 [OF conjunct2 [OF conjunct2 [OF nb]]] ex])
  note a1 = mp [OF conjunct2 [OF A] pr]
  show ?thesis by (intro conjI v np b1 b2 pr a1)
qed

section \<open>The snapshot of a room and who receives the secret\<close>

text \<open>
  The snapshot of \<open>getRoomState\<close> holds the players (the values of the Map, in its
  order), the stroke log and \<open>roundOwner\<close> as they are, and for \<open>currentWord\<close> the
  boolean \<open>room.currentWord ? true : false\<close>; its type has no place for the secret.
\<close>

lemma getRoomState_snapshot:
  "snd (getRoomState rooms roomId) =
     \<lparr>st_players = map snd (players (roomOf rooms roomId)),
      st_shapes = shapes (roomOf rooms roomId),
      st_currentWord = truthy (currentWord (roomOf rooms roomId)),
      st_roundOwner = roundOwner (roomOf rooms roomId)\<rparr>"
  by (simp add: getRoomState_eq getRoomStateIn_def)

text \<open>
  Claim C6. The snapshot never holds the secret (\<open>getRoomState_snapshot\<close>), and the only
  message with a field for the word is \<open>roundStarted\<close>, which \<open>onJoin\<close> and the timer of
  \<open>onGuess\<close> send with \<open>this.server.to(presenter.socketId)\<close>; the comments there say
  that the word goes to the presenter only. That is not what the code does: the address
  is the transport room named by the presenter's socket id, and \<open>client.join(dto.roomId)\<close>
  puts the sender of \<open>joinGame\<close> into the transport room of whatever \<open>roomId\<close> it sends.
  Sockets \<open>sA\<close> and \<open>sB\<close> connect. \<open>sA\<close> joins room \<open>r1\<close> and becomes its presenter;
  \<open>sB\<close> joins \<open>r1\<close>, where \<open>presenterAssigned\<close> and the snapshot tell it the presenter's
  id; \<open>sB\<close> sends \<open>joinGame\<close> with \<open>roomId = "sA"\<close>, and then \<open>joinGame\<close> for \<open>r1\<close> again.
  In the last call the presenter of \<open>r1\<close> is \<open>sA\<close>, the secret of \<open>r1\<close> is the first of
  \<open>mockWords\<close>, \<open>roundStarted\<close> with that word is sent to room \<open>sA\<close>, whose sockets are
  \<open>sA\<close> and \<open>sB\<close>, and so the secret is delivered to \<open>sB\<close>, which is not the
  presenter.
\<close>

theorem secret_reaches_non_presenter:
  "roundOwner (roomOf (rooms_after (onJoinDto (fst (afterJoin (afterJoin (afterJoin (socketConnect (socketConnect [] ''sA'') ''sB'', [])
      ''sA'' \<lparr>join_roomId = ''r1'', join_userName = ''alice''\<rparr> 0)
      ''sB'' \<lparr>join_roomId = ''r1'', join_userName = ''bob''\<rparr> 3)
      ''sB'' \<lparr>join_roomId = ''sA'', join_userName = ''bob''\<rparr> 5)) (snd (afterJoin (afterJoin (afterJoin (socketConnect (socketConnect [] ''sA'') ''sB'', [])
      ''sA'' \<lparr>join_roomId = ''r1'', join_userName = ''alice''\<rparr> 0)
      ''sB'' \<lparr>join_roomId = ''r1'', join_userName = ''bob''\<rparr> 3)
      ''sB'' \<lparr>join_roomId = ''sA'', join_userName = ''bob''\<rparr> 5))
      ''sB'' \<lparr>join_roomId = ''r1'', join_userName = ''bob''\<rparr> 2)) ''r1'') = Some ''sA'' \<and>
   currentWord (roomOf (rooms_after (onJoinDto (fst (afterJoin (afterJoin (afterJoin (socketConnect (socketConnect [] ''sA'') ''sB'', [])
      ''sA'' \<lparr>join_roomId = ''r1'', join_userName = ''alice''\<rparr> 0)
      ''sB'' \<lparr>join_roomId = ''r1'', join_userName = ''bob''\<rparr> 3)
      ''sB'' \<lparr>join_roomId = ''sA'', join_userName = ''bob''\<rparr> 5)) (snd (afterJoin (afterJoin (afterJoin (socketConnect (socketConnect [] ''sA'') ''sB'', [])
      ''sA'' \<lparr>join_roomId = ''r1'', join_userName = ''alice''\<rparr> 0)
      ''sB'' \<lparr>join_roomId = ''r1'', join_userName = ''bob''\<rparr> 3)
      ''sB'' \<lparr>join_roomId = ''sA'', join_userName = ''bob''\<rparr> 5))
      ''sB'' \<lparr>join_roomId = ''r1'', join_userName = ''bob''\<rparr> 2)) ''r1'') = Some (mockWords ! 0) \<and>
   emitted (onJoinDto (fst (afterJoin (afterJoin (afterJoin (socketConnect (socketConnect [] ''sA'') ''sB'', [])
      ''sA'' \<lparr>join_roomId = ''r1'', join_userName = ''alice''\<rparr> 0)
      ''sB'' \<lparr>join_roomId = ''r1'', join_userName = ''bob''\<rparr> 3)
      ''sB'' \<lparr>join_roomId = ''sA'', join_userName = ''bob''\<rparr> 5)) (snd (afterJoin (afterJoin (afterJoin (socketConnect (socketConnect [] ''sA'') ''sB'', [])
      ''sA'' \<lparr>join_roomId = ''r1'', join_userName = ''alice''\<rparr> 0)
      ''sB'' \<lparr>join_roomId = ''r1'', join_userName = ''bob''\<rparr> 3)
      ''sB'' \<lparr>join_roomId = ''sA'', join_userName = ''bob''\<rparr> 5))
      ''sB'' \<lparr>join_roomId = ''r1'', join_userName = ''bob''\<rparr> 2) =
     [(Client ''sB'',
         InitialState
           \<lparr>st_players = [\<lparr>socketId = ''sA'', name = ''alice'', score = 0\<rparr>,
                           \<lparr>socketId = ''sB'', name = ''bob'', score = 0\<rparr>],
            st_shapes = [], st_currentWord = True, st_roundOwner = Some ''sA''\<rparr>),
      (RoomExceptSender ''r1'' ''sB'', UserJoined ''sB'' ''bob''),
      (ServerTo ''r1'', PresenterAssigned ''sA'' ''alice''),
      (ServerTo ''sA'', RoundStarted (Some (mockWords ! 0)))] \<and>
   recipients (adapter_after (onJoinDto (fst (afterJoin (afterJoin (afterJoin (socketConnect (socketConnect [] ''sA'') ''sB'', [])
      ''sA'' \<lparr>join_roomId = ''r1'', join_userName = ''alice''\<rparr> 0)
      ''sB'' \<lparr>join_roomId = ''r1'', join_userName = ''bob''\<rparr> 3)
      ''sB'' \<lparr>join_roomId = ''sA'', join_userName = ''bob''\<rparr> 5)) (snd (afterJoin (afterJoin (afterJoin (socketConnect (socketConnect [] ''sA'') ''sB'', [])
      ''sA'' \<lparr>join_roomId = ''r1'', join_userName = ''alice''\<rparr> 0)
      ''sB'' \<lparr>join_roomId = ''r1'', join_userName = ''bob''\<rparr> 3)
      ''sB'' \<lparr>join_roomId = ''sA'', join_userName = ''bob''\<rparr> 5))
      ''sB'' \<lparr>join_roomId = ''r1'', join_userName = ''bob''\<rparr> 2)) (ServerTo ''sA'') = [''sA'', ''sB''] \<and>
   (''sB'', RoundStarted (Some (mockWords ! 0))) \<in>
     set (delivered (adapter_after (onJoinDto (fst (afterJoin (afterJoin (afterJoin (socketConnect (socketConnect [] ''sA'') ''sB'', [])
      ''sA'' \<lparr>join_roomId = ''r1'', join_userName = ''alice''\<rparr> 0)
      ''sB'' \<lparr>join_roomId = ''r1'', join_userName = ''bob''\<rparr> 3)
      ''sB'' \<lparr>join_roomId = ''sA'', join_userName = ''bob''\<rparr> 5)) (snd (afterJoin (afterJoin (afterJoin (socketConnect (socketConnect [] ''sA'') ''sB'', [])
      ''sA'' \<lparr>join_roomId = ''r1'', join_userName = ''alice''\<rparr> 0)
      ''sB'' \<lparr>join_roomId = ''r1'', join_userName = ''bob''\<rparr> 3)
      ''sB'' \<lparr>join_roomId = ''sA'', join_userName = ''bob''\<rparr> 5))
      ''sB'' \<lparr>join_roomId = ''r1'', join_userName = ''bob''\<rparr> 2)) (emitted (onJoinDto (fst (afterJoin (afterJoin (afterJoin (socketConnect (socketConnect [] ''sA'') ''sB'', [])
      ''sA'' \<lparr>join_roomId = ''r1'', join_userName = ''alice''\<rparr> 0)
      ''sB'' \<lparr>join_roomId = ''r1'', join_userName = ''bob''\<rparr> 3)
      ''sB'' \<lparr>join_roomId = ''sA'', join_userName = ''bob''\<rparr> 5)) (snd (afterJoin (afterJoin (afterJoin (socketConnect (socketConnect [] ''sA'') ''sB'', [])
      ''sA'' \<lparr>join_roomId = ''r1'', join_userName = ''alice''\<rparr> 0)
      ''sB'' \<lparr>join_roomId = ''r1'', join_userName = ''bob''\<rparr> 3)
      ''sB'' \<lparr>join_roomId = ''sA'', join_userName = ''bob''\<rparr> 5))
      ''sB'' \<lparr>join_roomId = ''r1'', join_userName = ''bob''\<rparr> 2)))"
  by code_simp

section \<open>Scores\<close>

lemma score_roomStep:
  assumes "\<not> isAddPlayer k sid op"
  shows "case map_of (players (roomStep op k room)) sid of
           None \<Rightarrow> True
         | Some p' \<Rightarrow>
             (case map_of (players room) sid of
                None \<Rightarrow> False
              | Some p \<Rightarrow> score p \<le> score p')"
proof (cases op)
  case (AddPlayer r sid' nm rnd)
  with assms show ?thesis
    by (auto simp: addPlayerIn_def Let_def update_conv' split: option.splits)
next
  case (RemovePlayerFromAll sid')
  then show ?thesis
    by (auto simp: removePlayerIn_def delete_conv' split: option.splits)
next
  case (CheckGuess lower r sid' g)
  then show ?thesis
    by (auto simp: checkGuessIn_def Let_def update_conv' split: option.splits if_splits)
next
  case (StartNextRound r rnd)
  then show ?thesis
    by (auto simp: startNextRoundIn_def Let_def split: option.splits)
qed (auto simp: appendShapeIn_def setCurrentWordIn_def split: option.splits)

lemma score_fold_roomStep:
  assumes "list_all (\<lambda>op. \<not> isAddPlayer k sid op) ops"
    and "map_of (players (fold (\<lambda>op. roomStep op k) ops room)) sid = Some p'"
  shows "\<exists>p. map_of (players room) sid = Some p \<and> score p \<le> score p'"
  using assms
proof (induction ops arbitrary: room)
  case Nil
  then show ?case by simp
next
  case (Cons op ops)
  from Cons.prems have no: "\<not> isAddPlayer k sid op"
    and rest: "list_all (\<lambda>op. \<not> isAddPlayer k sid op) ops"
    and fin: "map_of (players (fold (\<lambda>op. roomStep op k) ops (roomStep op k room))) sid = Some p'"
    by simp_all
  from Cons.IH [OF rest fin] obtain q
    where q: "map_of (players (roomStep op k room)) sid = Some q" and le: "score q \<le> score p'"
    by blast
  from score_roomStep [OF no, of room] q obtain p
    where "map_of (players room) sid = Some p" and "score p \<le> score q"
    by (auto split: option.splits)
  with le show ?case by auto
qed

lemma scoreOf_addPlayer: "scoreOf (addPlayer rooms roomId sid nm rnd) roomId sid = Some 0"
  using roomOf_exec [of "AddPlayer roomId sid nm rnd" rooms roomId]
  by (simp add: scoreOf_def addPlayerIn_def Let_def update_conv')

text \<open>
  Claim C5, as stated, fails: \<open>addPlayer\<close> stores a fresh entry with score 0 under the
  socket id, also when the id is already a member. After A and B have joined and B has
  guessed the word (score 10), a second \<open>addPlayer\<close> call for B leaves B with score 0.
\<close>

theorem score_reset_by_rejoin:
  "scoreOf (run [AddPlayer ''r1'' ''A'' ''alice'' 0, AddPlayer ''r1'' ''B'' ''bob'' 0,
           CheckGuess toLowerCaseAscii ''r1'' ''B'' (mockWords ! 0)] []) ''r1'' ''B'' = Some 10 \<and>
   scoreOf (exec (AddPlayer ''r1'' ''B'' ''bob'' 0)
      (run [AddPlayer ''r1'' ''A'' ''alice'' 0, AddPlayer ''r1'' ''B'' ''bob'' 0,
           CheckGuess toLowerCaseAscii ''r1'' ''B'' (mockWords ! 0)] [])) ''r1'' ''B'' = Some 0"
  by code_simp

text \<open>
  Claim C5, amended. Across any sequence of calls that contains no \<open>addPlayer\<close> call for
  that room and socket id, the score stored for a socket id in a room never decreases:
  if the id has score \<open>a\<close> before the sequence and score \<open>b\<close> after it, then \<open>a \<le> b\<close>.
  An \<open>addPlayer\<close> call for the room and socket id leaves the id with score 0.
\<close>

theorem score_never_decreases_without_rejoin:
  assumes "list_all (\<lambda>op. \<not> isAddPlayer roomId sid op) ops"
    and "scoreOf rooms roomId sid = Some a"
    and "scoreOf (run ops rooms) roomId sid = Some b"
  shows "a \<le> b \<and> scoreOf (addPlayer (run ops rooms) roomId sid nm rnd) roomId sid = Some 0"
proof -
  from assms(3) obtain p' where
    p': "map_of (players (fold (\<lambda>op. roomStep op roomId) ops (roomOf rooms roomId))) sid = Some p'"
    and b: "score p' = b"
    by (auto simp: scoreOf_def roomOf_run)
  from score_fold_roomStep [OF assms(1) p'] obtain p
    where "map_of (players (roomOf rooms roomId)) sid = Some p" and "score p \<le> score p'"
    by blast
  with assms(2) b have "a \<le> b" by (simp add: scoreOf_def)
  then show ?thesis by (simp add: scoreOf_addPlayer)
qed

theorem score_never_decreases_without_rejoin_witness:
  "list_all (\<lambda>op. \<not> isAddPlayer ''r1'' ''B'' op)
     [CheckGuess toLowerCaseAscii ''r1'' ''B'' (mockWords ! 0), RemovePlayerFromAll ''A'',
      StartNextRound ''r1'' 2, CheckGuess toLowerCaseAscii ''r1'' ''B'' (mockWords ! 2)] \<and>
   scoreOf (run [AddPlayer ''r1'' ''A'' ''alice'' 0, AddPlayer ''r1'' ''B'' ''bob'' 0] []) ''r1'' ''B'' = Some 0 \<and>
   scoreOf (run [CheckGuess toLowerCaseAscii ''r1'' ''B'' (mockWords ! 0), RemovePlayerFromAll ''A'',
      StartNextRound ''r1'' 2, CheckGuess toLowerCaseAscii ''r1'' ''B'' (mockWords ! 2)]
      (run [AddPlayer ''r1'' ''A'' ''alice'' 0, AddPlayer ''r1'' ''B'' ''bob'' 0] [])) ''r1'' ''B'' = Some 20 \<and>
   (0::int) \<le> 20 \<and>
   scoreOf (addPlayer (run [CheckGuess toLowerCaseAscii ''r1'' ''B'' (mockWords ! 0), RemovePlayerFromAll ''A'',
      StartNextRound ''r1'' 2, CheckGuess toLowerCaseAscii ''r1'' ''B'' (mockWords ! 2)]
      (run [AddPlayer ''r1'' ''A'' ''alice'' 0, AddPlayer ''r1'' ''B'' ''bob'' 0] [])) ''r1'' ''B'' ''bob'' 0) ''r1'' ''B'' = Some 0"
proof -
  have h1: "list_all (\<lambda>op. \<not> isAddPlayer ''r1'' ''B'' op)
     [CheckGuess toLowerCaseAscii ''r1'' ''B'' (mockWords ! 0), RemovePlayerFromAll ''A'',
      StartNextRound ''r1'' 2, CheckGuess toLowerCaseAscii ''r1'' ''B'' (mockWords ! 2)]"
    by simp
  have h2: "scoreOf (run [AddPlayer ''r1'' ''A'' ''alice'' 0, AddPlayer ''r1'' ''B'' ''bob'' 0] []) ''r1'' ''B'' = Some 0"
    by code_simp
  have h3: "scoreOf (run [CheckGuess toLowerCaseAscii ''r1'' ''B'' (mockWords ! 0), RemovePlayerFromAll ''A'',
      StartNextRound ''r1'' 2, CheckGuess toLowerCaseAscii ''r1'' ''B'' (mockWords ! 2)]
      (run [AddPlayer ''r1'' ''A'' ''alice'' 0, AddPlayer ''r1'' ''B'' ''bob'' 0] [])) ''r1'' ''B'' = Some 20"
    by code_simp
  note T = score_never_decreases_without_rejoin [OF h1 h2 h3, of "''bob''" 0]
  show ?thesis by (intro conjI h1 h2 h3 conjunct1 [OF T] conjunct2 [OF T])
qed

section \<open>The presenter is a member of the room\<close>

lemma list_all_update:
  "list_all Q al \<Longrightarrow> Q (k, v) \<Longrightarrow> list_all Q (AList.update k v al)"
  by (induction al) auto

lemma list_all_delete: "list_all Q al \<Longrightarrow> list_all Q (AList.delete k al)"
  by (induction al) auto

lemma keysAreIds_lookup:
  "keysAreIds room \<Longrightarrow> map_of (players room) k = Some p \<Longrightarrow> socketId p = k"
  by (auto simp: keysAreIds_def list_all_iff dest: map_of_SomeD)

lemma keysAreIds_nth:
  assumes "keysAreIds room" and "i < length (players room)"
  shows "\<exists>p. map_of (players room) (socketId (snd (players room ! i))) = Some p \<and>
             socketId p = socketId (snd (players room ! i))"
proof -
  from assms(2) have mem: "players room ! i \<in> set (players room)" by simp
  with assms(1) have key: "socketId (snd (players room ! i)) = fst (players room ! i)"
    by (auto simp: keysAreIds_def list_all_iff)
  from mem have "fst (players room ! i) \<in> fst ` set (players room)" by (rule imageI)
  then obtain p where p: "map_of (players room) (fst (players room ! i)) = Some p"
    by (cases "map_of (players room) (fst (players room ! i))")
       (auto simp: map_of_eq_None_iff)
  with assms(1) have "socketId p = fst (players room ! i)" by (rule keysAreIds_lookup)
  with p key show ?thesis by simp
qed

lemma roomStep_keysAreIds:
  assumes "keysAreIds room"
  shows "keysAreIds (roomStep op k room)"
proof (cases op)
  case (AddPlayer r sid nm rnd)
  with assms show ?thesis
    by (simp add: keysAreIds_def addPlayerIn_def Let_def list_all_update)
next
  case (RemovePlayerFromAll sid)
  with assms show ?thesis
    by (simp add: keysAreIds_def removePlayerIn_def list_all_delete)
next
  case (CheckGuess lower r sid g)
  show ?thesis
  proof (cases "map_of (players room) sid")
    case None
    with CheckGuess assms show ?thesis
      by (simp add: keysAreIds_def checkGuessIn_def split: option.splits)
  next
    case (Some p)
    with assms have "socketId p = sid" by (rule keysAreIds_lookup)
    with CheckGuess assms Some show ?thesis
      by (simp add: keysAreIds_def checkGuessIn_def Let_def list_all_update split: option.splits)
  qed
next
  case (StartNextRound r rnd)
  with assms show ?thesis
    by (simp add: keysAreIds_def startNextRoundIn_def Let_def)
qed (use assms in \<open>simp_all add: keysAreIds_def appendShapeIn_def setCurrentWordIn_def\<close>)

lemma roomStep_presenterIsMember:
  assumes "keysAreIds room" and "presenterIsMember room" and "keepsPresenter op k room"
  shows "presenterIsMember (roomStep op k room)"
proof (cases op)
  case (AddPlayer r sid nm rnd)
  with assms(2) show ?thesis
    by (auto simp: presenterIsMember_def addPlayerIn_def Let_def update_conv'
        split: option.splits)
next
  case (RemovePlayerFromAll sid)
  with assms(2,3) show ?thesis
    by (auto simp: presenterIsMember_def removePlayerIn_def delete_conv' split: option.splits)
next
  case (SetCurrentWord r w ow)
  show ?thesis
  proof (cases "k = r")
    case True
    with SetCurrentWord assms(3) obtain p where p: "map_of (players room) ow = Some p"
      by (auto simp: mapHas_def)
    with assms(1) have "socketId p = ow" by (rule keysAreIds_lookup)
    with SetCurrentWord True p show ?thesis
      by (simp add: presenterIsMember_def setCurrentWordIn_def)
  next
    case False
    with SetCurrentWord assms(2) show ?thesis by simp
  qed
next
  case (CheckGuess lower r sid g)
  show ?thesis
  proof (cases "map_of (players room) sid")
    case None
    with CheckGuess assms(2) show ?thesis
      by (simp add: checkGuessIn_def split: option.splits)
  next
    case (Some p)
    with assms(1) have "socketId p = sid" by (rule keysAreIds_lookup)
    with CheckGuess assms(2) Some show ?thesis
      by (auto simp: presenterIsMember_def checkGuessIn_def Let_def update_conv'
          split: option.splits)
  qed
next
  case (StartNextRound r rnd)
  show ?thesis
  proof (cases "k = r \<and> players room \<noteq> []")
    case True
    then have ne: "players room \<noteq> []" by simp
    with nextPresenterIndex_in_range [of room]
    have "nat (nextPresenterIndex room) < length (players room)" by linarith
    from keysAreIds_nth [OF assms(1) this] StartNextRound True show ?thesis
      by (auto simp: presenterIsMember_def startNextRoundIn_nonempty)
  next
    case False
    with StartNextRound assms(2) show ?thesis
      by (auto simp: startNextRoundIn_empty)
  qed
qed (use assms(2) in \<open>auto simp: presenterIsMember_def appendShapeIn_def split: option.splits\<close>)

lemma run_presenterIsMember:
  "keepsPresenterRun ops rooms k \<Longrightarrow> keysAreIds (roomOf rooms k) \<Longrightarrow>
   presenterIsMember (roomOf rooms k) \<Longrightarrow>
   keysAreIds (roomOf (run ops rooms) k) \<and> presenterIsMember (roomOf (run ops rooms) k)"
proof (induction ops arbitrary: rooms)
  case Nil
  then show ?case by (simp add: run_def)
next
  case (Cons op ops)
  from Cons.prems have ok: "keepsPresenter op k (roomOf rooms k)"
    and rest: "keepsPresenterRun ops (exec op rooms) k"
    by simp_all
  have "keysAreIds (roomOf (exec op rooms) k)"
    unfolding roomOf_exec using Cons.prems(2) by (rule roomStep_keysAreIds)
  moreover have "presenterIsMember (roomOf (exec op rooms) k)"
    unfolding roomOf_exec using Cons.prems(2,3) ok by (rule roomStep_presenterIsMember)
  ultimately have "keysAreIds (roomOf (run ops (exec op rooms)) k) \<and>
      presenterIsMember (roomOf (run ops (exec op rooms)) k)"
    using rest by (intro Cons.IH)
  then show ?case by (simp add: run_def)
qed

text \<open>
  Claim C4, as stated, fails: \<open>setCurrentWord\<close> stores the owner it is given without
  looking at the players. After A has joined, \<open>setCurrentWord\<close> with owner Z leaves a
  room whose presenter Z is not among its players.
\<close>

theorem presenter_need_not_be_member:
  "roundOwner (roomOf (run [AddPlayer ''r1'' ''A'' ''alice'' 0,
           SetCurrentWord ''r1'' ''cat'' ''Z''] []) ''r1'') = Some ''Z'' \<and>
   map fst (players (roomOf (run [AddPlayer ''r1'' ''A'' ''alice'' 0,
           SetCurrentWord ''r1'' ''cat'' ''Z''] []) ''r1'')) = [''A''] \<and>
   \<not> presenterIsMember (roomOf (run [AddPlayer ''r1'' ''A'' ''alice'' 0,
           SetCurrentWord ''r1'' ''cat'' ''Z''] []) ''r1'')"
  by code_simp

text \<open>
  \<open>removePlayerFromAll\<close> deletes the player and leaves \<open>roundOwner\<close> as it is; the source
  marks the hand-over of the presenter's role at this place as still to be done. After
  A and B have joined and A has been removed, A is still the presenter.
\<close>

lemma presenter_stays_after_leaving:
  "roundOwner (roomOf (run [AddPlayer ''r1'' ''A'' ''alice'' 0, AddPlayer ''r1'' ''B'' ''bob'' 0,
           RemovePlayerFromAll ''A''] []) ''r1'') = Some ''A'' \<and>
   map fst (players (roomOf (run [AddPlayer ''r1'' ''A'' ''alice'' 0, AddPlayer ''r1'' ''B'' ''bob'' 0,
           RemovePlayerFromAll ''A''] []) ''r1'')) = [''B''] \<and>
   \<not> presenterIsMember (roomOf (run [AddPlayer ''r1'' ''A'' ''alice'' 0, AddPlayer ''r1'' ''B'' ''bob'' 0,
           RemovePlayerFromAll ''A''] []) ''r1'')"
  by code_simp

text \<open>
  Claim C4, amended. Start from the empty registry and make any sequence of calls in
  which \<open>setCurrentWord\<close> is called only with an owner that is a key of the room's
  players at that moment, and \<open>removePlayerFromAll\<close> is not called for the socket id
  that is the presenter of the room at that moment. Then in the room, the presenter, if
  set, is the socket id of a current member of the room's players.
\<close>

theorem presenter_is_member_unless_removed_or_set:
  assumes "keepsPresenterRun ops [] roomId" and "map_of (run ops []) roomId = Some room"
  shows "presenterIsMember room \<and>
         (\<forall>presenter. roundOwner room = Some presenter \<longrightarrow>
            (\<exists>player. map_of (players room) presenter = Some player \<and>
                       socketId player = presenter))"
proof -
  have "keysAreIds (roomOf [] roomId)" and "presenterIsMember (roomOf [] roomId)"
    by (simp_all add: roomOf_empty newRoom_def keysAreIds_def presenterIsMember_def)
  with assms(1) have "presenterIsMember (roomOf (run ops []) roomId)"
    using run_presenterIsMember by blast
  with assms(2) have m: "presenterIsMember room" by (simp add: map_of_roomOf)
  then have "\<forall>presenter. roundOwner room = Some presenter \<longrightarrow>
            (\<exists>player. map_of (players room) presenter = Some player \<and>
                       socketId player = presenter)"
    by (auto simp: presenterIsMember_def split: option.splits)
  with m show ?thesis by simp
qed

theorem presenter_is_member_unless_removed_or_set_witness:
  "keepsPresenterRun [AddPlayer ''r1'' ''A'' ''alice'' 0, AddPlayer ''r1'' ''B'' ''bob'' 0,
      RemovePlayerFromAll ''B'', AddPlayer ''r1'' ''C'' ''carol'' 0,
      StartNextRound ''r1'' 2, SetCurrentWord ''r1'' ''cat'' ''A'',
      CheckGuess toLowerCaseAscii ''r1'' ''C'' ''cat''] [] ''r1'' \<and>
   map_of (run [AddPlayer ''r1'' ''A'' ''alice'' 0, AddPlayer ''r1'' ''B'' ''bob'' 0,
      RemovePlayerFromAll ''B'', AddPlayer ''r1'' ''C'' ''carol'' 0,
      StartNextRound ''r1'' 2, SetCurrentWord ''r1'' ''cat'' ''A'',
      CheckGuess toLowerCaseAscii ''r1'' ''C'' ''cat''] []) ''r1'' =
     Some \<lparr>id_room = ''r1'',
       players = [(''A'', \<lparr>socketId = ''A'', name = ''alice'', score = 0\<rparr>),
                  (''C'', \<lparr>socketId = ''C'', name = ''carol'', score = 10\<rparr>)],
       shapes = [], currentWord = Some ''cat'', roundOwner = Some ''A''\<rparr> \<and>
   presenterIsMember \<lparr>id_room = ''r1'',
       players = [(''A'', \<lparr>socketId = ''A'', name = ''alice'', score = 0\<rparr>),
                  (''C'', \<lparr>socketId = ''C'', name = ''carol'', score = 10\<rparr>)],
       shapes = [], currentWord = Some ''cat'', roundOwner = Some ''A''\<rparr> \<and>
   (\<exists>player. map_of (players \<lparr>id_room = ''r1'',
       players = [(''A'', \<lparr>socketId = ''A'', name = ''alice'', score = 0\<rparr>),
                  (''C'', \<lparr>socketId = ''C'', name = ''carol'', score = 10\<rparr>)],
       shapes = [], currentWord = Some ''cat'', roundOwner = Some ''A''\<rparr>) ''A'' = Some player \<and> socketId player = ''A'')"
proof -
  have h1: "keepsPresenterRun [AddPlayer ''r1'' ''A'' ''alice'' 0, AddPlayer ''r1'' ''B'' ''bob'' 0,
      RemovePlayerFromAll ''B'', AddPlayer ''r1'' ''C'' ''carol'' 0,
      StartNextRound ''r1'' 2, SetCurrentWord ''r1'' ''cat'' ''A'',
      CheckGuess toLowerCaseAscii ''r1'' ''C'' ''cat''] [] ''r1''"
    by code_simp
  have h2: "map_of (run [AddPlayer ''r1'' ''A'' ''alice'' 0, AddPlayer ''r1'' ''B'' ''bob'' 0,
      RemovePlayerFromAll ''B'', AddPlayer ''r1'' ''C'' ''carol'' 0,
      StartNextRound ''r1'' 2, SetCurrentWord ''r1'' ''cat'' ''A'',
      CheckGuess toLowerCaseAscii ''r1'' ''C'' ''cat''] []) ''r1'' =
     Some \<lparr>id_room = ''r1'',
       players = [(''A'', \<lparr>socketId = ''A'', name = ''alice'', score = 0\<rparr>),
                  (''C'', \<lparr>socketId = ''C'', name = ''carol'', score = 10\<rparr>)],
       shapes = [], currentWord = Some ''cat'', roundOwner = Some ''A''\<rparr>"
    by code_simp
  have h3: "roundOwner \<lparr>id_room = ''r1'',
       players = [(''A'', \<lparr>socketId = ''A'', name = ''alice'', score = 0\<rparr>),
                  (''C'', \<lparr>socketId = ''C'', name = ''carol'', score = 10\<rparr>)],
       shapes = [], currentWord = Some ''cat'', roundOwner = Some ''A''\<rparr> = Some ''A''"
    by simp
  note T = presenter_is_member_unless_removed_or_set [OF h1 h2]
  note e = conjunct2 [OF T, rule_format, OF h3]
  show ?thesis by (intro conjI h1 h2 conjunct1 [OF T] e)
qed

section \<open>A correct guess from outside the room\<close>









section \<open>Set fields and truthiness\<close>

text \<open>
  The code tests \<open>roundOwner\<close> and \<open>currentWord\<close> for truthiness, which takes the empty
  string for an unset field. As long as no call supplies an empty string as a socket id
  or as a word, the two readings agree: a field that is set is truthy.
\<close>

lemma mockWords_nonempty: "rnd < length mockWords \<Longrightarrow> mockWords ! rnd \<noteq> []"
proof -
  assume "rnd < length mockWords"
  then have "mockWords ! rnd \<in> set mockWords" by (rule nth_mem)
  moreover have "\<forall>w \<in> set mockWords. w \<noteq> []" by (simp add: mockWords_def)
  ultimately show ?thesis by blast
qed

lemma roomStep_noEmptyString:
  assumes "rndInRange op" and "nonEmptyArgs op" and "noEmptyString room"
  shows "noEmptyString (roomStep op k room)"
proof (cases op)
  case (AddPlayer r sid nm rnd)
  with assms show ?thesis
    by (auto simp: noEmptyString_def addPlayerIn_def Let_def list_all_update randomWord_def
        mockWords_nonempty)
next
  case (RemovePlayerFromAll sid)
  with assms show ?thesis
    by (simp add: noEmptyString_def removePlayerIn_def list_all_delete)
next
  case (SetCurrentWord r w ow)
  with assms show ?thesis
    by (auto simp: noEmptyString_def setCurrentWordIn_def)
next
  case (CheckGuess lower r sid g)
  show ?thesis
  proof (cases "map_of (players room) sid")
    case None
    with CheckGuess assms show ?thesis
      by (simp add: noEmptyString_def checkGuessIn_def split: option.splits)
  next
    case (Some p)
    then have "(sid, p) \<in> set (players room)" by (rule map_of_SomeD)
    with assms(3) have "socketId p \<noteq> []" by (auto simp: noEmptyString_def list_all_iff)
    with CheckGuess assms Some show ?thesis
      by (simp add: noEmptyString_def checkGuessIn_def Let_def list_all_update
          split: option.splits)
  qed
next
  case (StartNextRound r rnd)
  show ?thesis
  proof (cases "k = r \<and> players room \<noteq> []")
    case True
    with nextPresenterIndex_in_range [of room]
    have "nat (nextPresenterIndex room) < length (players room)" by linarith
    then have "players room ! nat (nextPresenterIndex room) \<in> set (players room)"
      by (rule nth_mem)
    with assms(3) have "socketId (snd (players room ! nat (nextPresenterIndex room))) \<noteq> []"
      by (auto simp: noEmptyString_def list_all_iff)
    with StartNextRound True assms show ?thesis
      by (auto simp: noEmptyString_def startNextRoundIn_nonempty randomWord_def
          mockWords_nonempty)
  next
    case False
    with StartNextRound assms(3) show ?thesis
      by (auto simp: startNextRoundIn_empty)
  qed
qed (use assms in \<open>simp_all add: noEmptyString_def appendShapeIn_def\<close>)

lemma fold_roomStep_noEmptyString:
  "list_all rndInRange ops \<Longrightarrow> list_all nonEmptyArgs ops \<Longrightarrow> noEmptyString room \<Longrightarrow>
   noEmptyString (fold (\<lambda>op. roomStep op k) ops room)"
  by (induction ops arbitrary: room) (simp_all add: roomStep_noEmptyString)

lemma set_fields_are_truthy:
  assumes "list_all rndInRange ops" and "list_all nonEmptyArgs ops"
    and "map_of (run ops []) roomId = Some room"
  shows "truthy (roundOwner room) = (roundOwner room \<noteq> None) \<and>
         truthy (currentWord room) = (currentWord room \<noteq> None)"
proof -
  have "room = fold (\<lambda>op. roomStep op roomId) ops (newRoom roomId)"
    using assms(3) map_of_roomOf roomOf_run roomOf_empty by metis
  moreover have "noEmptyString (newRoom roomId)"
    by (simp add: noEmptyString_def newRoom_def)
  ultimately have "noEmptyString room"
    using fold_roomStep_noEmptyString [OF assms(1,2)] by simp
  then show ?thesis
    by (auto simp: noEmptyString_def truthy_def split: option.splits)
qed

section \<open>The association lists are Maps\<close>

text \<open>
  The keys of the registry and of the players of every room stay distinct, so that
  \<^const>\<open>AList.update\<close> and \<^const>\<open>AList.delete\<close> act on them as \<open>set\<close> and \<open>delete\<close> act
  on a JavaScript \<open>Map\<close>.
\<close>

lemma map_fst_removePlayerFromAll: "map fst (removePlayerFromAll rooms sid) = map fst rooms"
  by (induction rooms) (auto simp: removePlayerFromAll_def)

lemma exec_distinct_keys:
  assumes "distinct (map fst rooms)"
  shows "distinct (map fst (exec op rooms))"
proof -
  have e: "distinct (map fst (fst (ensureRoom rooms r)))" for r
    using assms by (simp add: ensureRoom_def distinct_update split: option.splits)
  show ?thesis
    by (cases op)
       (simp_all add: e assms addPlayer_def appendShape_def setCurrentWord_def checkGuess_def
          startNextRound_def getRoomState_def split_beta distinct_update
          map_fst_removePlayerFromAll)
qed

lemma roomStep_distinct_players:
  assumes "distinct (map fst (players room))"
  shows "distinct (map fst (players (roomStep op k room)))"
  using assms
  by (cases op)
     (auto simp: addPlayerIn_def Let_def removePlayerIn_def appendShapeIn_def
        setCurrentWordIn_def checkGuessIn_def startNextRoundIn_def distinct_update
        distinct_delete split: option.splits)

lemma run_distinct_keys:
  "distinct (map fst rooms) \<Longrightarrow> distinct (map fst (run ops rooms))"
  by (induction ops arbitrary: rooms) (simp_all add: run_def exec_distinct_keys)

lemma fold_roomStep_distinct_players:
  "distinct (map fst (players room)) \<Longrightarrow>
   distinct (map fst (players (fold (\<lambda>op. roomStep op k) ops room)))"
  by (induction ops arbitrary: room) (simp_all add: roomStep_distinct_players)

lemma reachable_keys_distinct:
  "distinct (map fst (run ops [])) \<and>
   distinct (map fst (players (roomOf (run ops []) roomId)))"
  using run_distinct_keys [of "[]" ops]
    fold_roomStep_distinct_players [of "newRoom roomId" roomId ops]
  by (simp add: roomOf_run roomOf_empty newRoom_def)

end
